theory Spec2Isabelle
  imports Complex_Main "HOL-Library.Word"
begin

section \<open>Data model of the pose graph manager\<close>

text \<open>
  The development embeds \<^verbatim>\<open>src/back_end/pose_graph_manager.cpp\<close>.  Robot ids are
  \<^verbatim>\<open>unsigned int\<close>, keyframe ids are \<^verbatim>\<open>uint32\<close>, the two characters of a
  \<^verbatim>\<open>gtsam::LabeledSymbol\<close> are \<^verbatim>\<open>unsigned char\<close> and its index is a 64-bit integer.
  Poses (\<^verbatim>\<open>gtsam::Pose3\<close>) are kept abstract: a type \<open>'p\<close> with the identity \<open>1\<close>, the
  composition \<open>*\<close> and \<open>inverse\<close>; noise models are an abstract type \<open>'n\<close>.
\<close>

type_synonym robot_id = "32 word"

datatype symbol = LabeledSymbol (chr: "8 word") (label: "8 word") (index: "64 word")

text \<open>The default constructed \<^verbatim>\<open>gtsam::LabeledSymbol()\<close>: all three fields are zero.\<close>

definition default_symbol :: symbol where
  "default_symbol = LabeledSymbol 0 0 0"

datatype ('p, 'n) between =
  BetweenFactor (key1: symbol) (key2: symbol) (measured: 'p) (noise: 'n)

text \<open>
  A \<^verbatim>\<open>gtsam::NonlinearFactorGraph\<close> holds pointers to factors of any kind.  The two kinds
  the manager creates are the between factor and the prior added by \<^verbatim>\<open>addPrior\<close>.
\<close>

datatype ('p, 'n) factor =
  Between "('p, 'n) between"
| Prior symbol 'p 'n

text \<open>
  \<^verbatim>\<open>gtsam::Values\<close>: the entries with their keys.  The model keeps them as an association
  list whose keys are distinct, in the order of insertion.
\<close>

type_synonym 'p values_t = "(symbol \<times> 'p) list"

datatype error =
  OutOfBounds
| NullPointer
| ValuesKeyAlreadyExists
| OptimizerFailure

datatype OptimizerState = IDLE | WAITING | POSEGRAPH_COLLECTION | OPTIMIZATION

text \<open>
  What the manager takes from headers outside \<^verbatim>\<open>pose_graph_manager.cpp\<close>:
  the macros \<^verbatim>\<open>GRAPH_LABEL\<close>, \<^verbatim>\<open>ROBOT_LABEL\<close> and \<^verbatim>\<open>ROBOT_ID\<close>, and the GNC optimizer of
  GTSAM.  They are parameters of the model.
\<close>

record ('p, 'n) env =
  GRAPH_LABEL :: "8 word"
  ROBOT_LABEL :: "robot_id \<Rightarrow> 8 word"
  ROBOT_ID :: "8 word \<Rightarrow> robot_id"
  gnc_optimize :: "('p, 'n) factor list \<Rightarrow> 'p values_t \<Rightarrow> error + 'p values_t"

record ('p, 'n) manager =
  nb_robots :: "32 word"
  robot_id :: robot_id
  max_waiting_time_sec :: int
  default_noise_model :: 'n
  pose_graph :: "('p, 'n) factor list"
  current_pose_estimates :: "'p values_t"
  latest_local_symbol :: symbol
  latest_local_pose :: 'p
  inter_robot_loop_closures :: "(robot_id \<times> robot_id) \<rightharpoonup> ('p, 'n) between list"
  current_neighbors_ids :: "robot_id list"
  received_pose_graphs :: "robot_id \<rightharpoonup> bool"
  other_robots_graph_and_estimates :: "robot_id \<rightharpoonup> (('p, 'n) factor list \<times> 'p values_t)"
  received_pose_graphs_connectivity :: "robot_id \<rightharpoonup> robot_id list"
  optimizer_state :: OptimizerState
  is_waiting :: bool
  start_waiting_time :: int

text \<open>
  The messages.  Their pose, factor and value fields hold the GTSAM objects that the
  conversion functions of the message utilities (\<^verbatim>\<open>odometry_msg_to_pose3\<close>,
  \<^verbatim>\<open>transform_msg_to_pose3\<close>, \<^verbatim>\<open>edges_msg_to_gtsam\<close>, \<^verbatim>\<open>values_msg_to_gtsam\<close> and their
  inverses) read from and write to the wire format.
\<close>

record 'p KeyframeOdom =
  keyframe_id :: "32 word"
  odom :: 'p

record 'p InterRobotLoopClosure =
  success :: bool
  robot0_id :: robot_id
  robot0_image_id :: "32 word"
  robot1_id :: robot_id
  robot1_image_id :: "32 word"
  transform :: 'p

record ('p, 'n) PoseGraph =
  msg_robot_id :: robot_id
  msg_values :: "'p values_t"
  msg_edges :: "('p, 'n) factor list"
  msg_connected_robots :: "robot_id list"

text \<open>What a callback publishes, in the order of the \<^verbatim>\<open>publish\<close> calls.\<close>

datatype ('p, 'n) published =
  GetCurrentNeighbors
| GetPoseGraph robot_id "robot_id list"
| PublishedPoseGraph "('p, 'n) PoseGraph"
| OptimizationResult bool "('p, 'n) factor list" "'p values_t"
| OptimizerStateMsg OptimizerState

subsection \<open>The operations of \<^verbatim>\<open>std::map\<close>\<close>

text \<open>
  \<^verbatim>\<open>m.insert({k, v})\<close> leaves an existing entry alone.  \<^verbatim>\<open>m[k]\<close> reads the entry of \<open>k\<close>
  and creates it with the default value when it is missing: \<open>map_at\<close> is the value read
  and \<open>map_touch\<close> the map afterwards.
\<close>

definition map_insert :: "('k \<rightharpoonup> 'v) \<Rightarrow> 'k \<Rightarrow> 'v \<Rightarrow> ('k \<rightharpoonup> 'v)" where
  "map_insert m k v = (case m k of None \<Rightarrow> m(k \<mapsto> v) | Some u \<Rightarrow> m)"

definition map_at :: "'v \<Rightarrow> ('k \<rightharpoonup> 'v) \<Rightarrow> 'k \<Rightarrow> 'v" where
  "map_at d m k = (case m k of None \<Rightarrow> d | Some v \<Rightarrow> v)"

definition map_touch :: "'v \<Rightarrow> ('k \<rightharpoonup> 'v) \<Rightarrow> 'k \<Rightarrow> ('k \<rightharpoonup> 'v)" where
  "map_touch d m k = (case m k of None \<Rightarrow> m(k \<mapsto> d) | Some v \<Rightarrow> m)"

section \<open>Connectivity resolver\<close>

text \<open>
  The body of the \<^verbatim>\<open>for (auto id : received_pose_graphs_connectivity_[current_id])\<close> loop.
  \<open>visited\<close> is the heap array of \<^verbatim>\<open>new bool[n]\<close>, a list of length \<open>n\<close>; an index
  outside it ends the run with \<open>OutOfBounds\<close>.
\<close>

fun visit_ids ::
  "robot_id list \<Rightarrow> (robot_id \<rightharpoonup> bool) \<Rightarrow> bool list \<Rightarrow> robot_id list \<Rightarrow>
     error + ((robot_id \<rightharpoonup> bool) \<times> bool list \<times> robot_id list)" where
  "visit_ids [] is_robot_connected visited queue = Inr (is_robot_connected, visited, queue)"
| "visit_ids (rid # ids) is_robot_connected visited queue =
     (let is_robot_connected' = is_robot_connected(rid \<mapsto> True) in
      if unat rid < length visited then
        if \<not> visited ! unat rid
        then visit_ids ids is_robot_connected' (visited[unat rid := True]) (queue @ [rid])
        else visit_ids ids is_robot_connected' visited queue
      else Inl OutOfBounds)"

definition unvisited :: "bool list \<Rightarrow> nat" where
  "unvisited visited = length (filter Not visited)"

lemma unvisited_mark:
  "i < length visited \<Longrightarrow> \<not> visited ! i \<Longrightarrow>
     Suc (unvisited (visited[i := True])) = unvisited visited"
proof (induction visited arbitrary: i)
  case Nil
  then show ?case by simp
next
  case (Cons v vs)
  then show ?case by (cases i) (auto simp: unvisited_def)
qed

lemma visit_ids_measure:
  "visit_ids ids m vis q = Inr (m', vis', q') \<Longrightarrow>
     length vis' = length vis \<and> unvisited vis' + length q' = unvisited vis + length q"
proof (induction ids arbitrary: m vis q)
  case Nil
  then show ?case by simp
next
  case (Cons i ids)
  show ?case
  proof (cases "unat i < length vis")
    case False
    with Cons.prems show ?thesis by simp
  next
    case inb: True
    show ?thesis
    proof (cases "vis ! unat i")
      case True
      with inb Cons.prems
      have "visit_ids ids (m(i \<mapsto> True)) vis q = Inr (m', vis', q')"
        by simp
      from Cons.IH [OF this] show ?thesis .
    next
      case False
      with inb Cons.prems
      have "visit_ids ids (m(i \<mapsto> True)) (vis[unat i := True]) (q @ [i]) = Inr (m', vis', q')"
        by simp
      from Cons.IH [OF this] unvisited_mark [OF inb False] show ?thesis by simp
    qed
  qed
qed

text \<open>
  The \<^verbatim>\<open>while (!queue.empty())\<close> loop.  Reading
  \<^verbatim>\<open>received_pose_graphs_connectivity_[current_id]\<close> creates an empty entry for a robot
  without one, so the map is part of the loop state.
\<close>

function bfs_loop ::
  "(robot_id \<rightharpoonup> robot_id list) \<Rightarrow> (robot_id \<rightharpoonup> bool) \<Rightarrow> bool list \<Rightarrow> robot_id list \<Rightarrow>
     error + ((robot_id \<rightharpoonup> bool) \<times> (robot_id \<rightharpoonup> robot_id list))" where
  "bfs_loop connectivity is_robot_connected visited [] = Inr (is_robot_connected, connectivity)"
| "bfs_loop connectivity is_robot_connected visited (current_id # queue) =
     (case visit_ids (map_at [] connectivity current_id) is_robot_connected visited queue of
        Inl e \<Rightarrow> Inl e
      | Inr (is_robot_connected', visited', queue') \<Rightarrow>
          bfs_loop (map_touch [] connectivity current_id) is_robot_connected' visited' queue')"
  by pat_completeness auto
termination
proof (relation "measure (\<lambda>(c, m, vis, q). unvisited vis + length q)")
  show "wf (measure (\<lambda>(c, m, vis, q). unvisited vis + length q))" by simp
next
  fix connectivity :: "robot_id \<rightharpoonup> robot_id list" and is_robot_connected visited current_id queue
    x2 x y xa ya
  assume "visit_ids (map_at [] connectivity current_id) is_robot_connected visited queue = Inr x2"
    and "(x, y) = x2" and "(xa, ya) = y"
  then have "visit_ids (map_at [] connectivity current_id) is_robot_connected visited queue
      = Inr (x, xa, ya)" by simp
  from visit_ids_measure [OF this]
  show "((map_touch [] connectivity current_id, x, xa, ya),
         (connectivity, is_robot_connected, visited, current_id # queue))
        \<in> measure (\<lambda>(c, m, vis, q). unvisited vis + length q)" by simp
qed

text \<open>
  \<^verbatim>\<open>connected_robot_pose_graph\<close>: the map starts with self at true and every current
  neighbour at false (\<^verbatim>\<open>insert\<close> keeps the entry of self when self is listed as a
  neighbour), \<open>visited\<close> gets one cell for each entry of the neighbour list, and the
  search starts by marking \<^verbatim>\<open>visited[robot_id_]\<close>.
\<close>

definition connected_robot_pose_graph ::
  "('p, 'n) manager \<Rightarrow> error + ((robot_id \<rightharpoonup> bool) \<times> ('p, 'n) manager)" where
  "connected_robot_pose_graph st =
     (let is_robot_connected =
            foldl (\<lambda>m rid. map_insert m rid False)
              (map_insert Map.empty (robot_id st) True) (current_neighbors_ids st);
          visited = replicate (length (current_neighbors_ids st)) False;
          current_id = robot_id st
      in if unat current_id < length visited then
           (case bfs_loop (received_pose_graphs_connectivity st) is_robot_connected
                   (visited[unat current_id := True]) [current_id] of
              Inl e \<Rightarrow> Inl e
            | Inr (is_robot_connected', connectivity') \<Rightarrow>
                Inr (is_robot_connected',
                     st\<lparr>received_pose_graphs_connectivity := connectivity'\<rparr>))
         else Inl OutOfBounds)"


section \<open>Construction and the ingestion callbacks\<close>

text \<open>
  The constructor.  \<open>max_waiting_param\<close> is in seconds; durations and clock readings
  are integers counting nanoseconds.  The default noise model (diagonal sigmas 0.01 and
  0.1) is the parameter \<open>noise_model\<close>.
\<close>

definition PoseGraphManager ::
  "32 word \<Rightarrow> robot_id \<Rightarrow> int \<Rightarrow> 'n \<Rightarrow> ('p::one, 'n) manager" where
  "PoseGraphManager nb rid max_waiting_param noise_model =
     \<lparr> nb_robots = nb,
       robot_id = rid,
       max_waiting_time_sec = max_waiting_param * 1000000000,
       default_noise_model = noise_model,
       pose_graph = [],
       current_pose_estimates = [],
       latest_local_symbol = default_symbol,
       latest_local_pose = 1,
       inter_robot_loop_closures = (\<lambda>(i, j). if i < j \<and> j < nb then Some [] else None),
       current_neighbors_ids = [],
       received_pose_graphs = (\<lambda>i. if i < nb then Some False else None),
       other_robots_graph_and_estimates = Map.empty,
       received_pose_graphs_connectivity = Map.empty,
       optimizer_state = IDLE,
       is_waiting = False,
       start_waiting_time = 0 \<rparr>"

definition reinitialize_received_pose_graphs :: "('p, 'n) manager \<Rightarrow> ('p, 'n) manager" where
  "reinitialize_received_pose_graphs st =
     st\<lparr> received_pose_graphs :=
            (\<lambda>i. if i < nb_robots st then Some False else received_pose_graphs st i),
         other_robots_graph_and_estimates := Map.empty,
         received_pose_graphs_connectivity := Map.empty \<rparr>"

definition check_received_pose_graphs :: "('p, 'n) manager \<Rightarrow> bool \<times> ('p, 'n) manager" where
  "check_received_pose_graphs st =
     (let (received_all, flags) =
            foldl (\<lambda>(received_all, flags) rid.
                     (received_all \<and> map_at False flags rid, map_touch False flags rid))
              (True, received_pose_graphs st) (current_neighbors_ids st)
      in (received_all, st\<lparr>received_pose_graphs := flags\<rparr>))"

text \<open>
  Modelled from the spec: \<^verbatim>\<open>gtsam::Values::insert\<close>, of the GTSAM library, which the
  sources call and do not contain.  It is a raw insert that throws when the key is
  already present; inserting a whole \<^verbatim>\<open>Values\<close> inserts its entries one by one.
\<close>

definition values_insert :: "'p values_t \<Rightarrow> symbol \<Rightarrow> 'p \<Rightarrow> error + 'p values_t" where
  "values_insert vals k v =
     (case map_of vals k of
        None \<Rightarrow> Inr (vals @ [(k, v)])
      | Some u \<Rightarrow> Inl ValuesKeyAlreadyExists)"

fun values_insert_all :: "'p values_t \<Rightarrow> 'p values_t \<Rightarrow> error + 'p values_t" where
  "values_insert_all vals [] = Inr vals"
| "values_insert_all vals ((k, v) # rest) =
     (case values_insert vals k v of
        Inl e \<Rightarrow> Inl e
      | Inr vals' \<Rightarrow> values_insert_all vals' rest)"

definition odometry_callback ::
  "('p, 'n) env \<Rightarrow> ('p::{one,times,inverse}, 'n) manager \<Rightarrow> 'p KeyframeOdom \<Rightarrow>
     error + ('p, 'n) manager" where
  "odometry_callback env st msg =
     (let current_estimate = odom msg;
          symbol = LabeledSymbol (GRAPH_LABEL env) (ROBOT_LABEL env (robot_id st))
                     (ucast (keyframe_id msg))
      in case values_insert (current_pose_estimates st) symbol current_estimate of
           Inl e \<Rightarrow> Inl e
         | Inr estimates \<Rightarrow>
             Inr (st\<lparr> current_pose_estimates := estimates,
                      pose_graph :=
                        (if latest_local_symbol st \<noteq> default_symbol
                         then pose_graph st @
                           [Between (BetweenFactor (latest_local_symbol st) symbol
                              (current_estimate * inverse (latest_local_pose st))
                              (default_noise_model st))]
                         else pose_graph st),
                      latest_local_pose := current_estimate,
                      latest_local_symbol := symbol \<rparr>))"

definition inter_robot_loop_closure_callback ::
  "('p, 'n) env \<Rightarrow> ('p, 'n) manager \<Rightarrow> 'p InterRobotLoopClosure \<Rightarrow> ('p, 'n) manager" where
  "inter_robot_loop_closure_callback env st msg =
     (if success msg then
        (let measurement = transform msg;
             symbol_from = LabeledSymbol (GRAPH_LABEL env) (ROBOT_LABEL env (robot0_id msg))
                             (ucast (robot0_image_id msg));
             symbol_to = LabeledSymbol (GRAPH_LABEL env) (ROBOT_LABEL env (robot1_id msg))
                           (ucast (robot1_image_id msg));
             factor = BetweenFactor symbol_from symbol_to measurement (default_noise_model st);
             k = (min (robot0_id msg) (robot1_id msg), max (robot0_id msg) (robot1_id msg))
         in st\<lparr> inter_robot_loop_closures :=
                   (inter_robot_loop_closures st)
                     (k \<mapsto> map_at [] (inter_robot_loop_closures st) k @ [factor]) \<rparr>)
      else st)"

definition end_waiting :: "('p, 'n) manager \<Rightarrow> ('p, 'n) manager" where
  "end_waiting st = st\<lparr>is_waiting := False\<rparr>"

definition start_waiting :: "int \<Rightarrow> ('p, 'n) manager \<Rightarrow> ('p, 'n) manager" where
  "start_waiting now st =
     st\<lparr>optimizer_state := WAITING, is_waiting := True, start_waiting_time := now\<rparr>"

definition current_neighbors_callback ::
  "('p, 'n) manager \<Rightarrow> robot_id list \<Rightarrow> ('p, 'n) manager" where
  "current_neighbors_callback st ids =
     end_waiting (st\<lparr>current_neighbors_ids := ids, optimizer_state := POSEGRAPH_COLLECTION\<rparr>)"

section \<open>Exchange protocol\<close>

text \<open>
  The pairs \<open>(ids[i], ids[j])\<close> visited by
  \<^verbatim>\<open>for (i = 0; i < n; i++) for (j = i + 1; j < n; j++)\<close>, in the order of the visits.
  The counters are \<^verbatim>\<open>unsigned int\<close>; the id arrays of the messages are taken to be shorter
  than \<open>2 ^ 32\<close>, so the counters do not wrap.
\<close>

fun index_pairs :: "'a list \<Rightarrow> ('a \<times> 'a) list" where
  "index_pairs [] = []"
| "index_pairs (x # xs) = map (Pair x) xs @ index_pairs xs"

text \<open>\<^verbatim>\<open>std::set<unsigned int>::insert\<close>; the set is kept as its ascending list of elements.\<close>

definition set_insert :: "robot_id \<Rightarrow> robot_id list \<Rightarrow> robot_id list" where
  "set_insert x xs = (if x \<in> set xs then xs else insort x xs)"

text \<open>The body of the inner loop of \<^verbatim>\<open>get_pose_graph_callback\<close>.\<close>

definition serve_pair ::
  "robot_id \<Rightarrow>
   ('p, 'n) factor list \<times> robot_id list \<times> ((robot_id \<times> robot_id) \<rightharpoonup> ('p, 'n) between list) \<Rightarrow>
   robot_id \<times> robot_id \<Rightarrow>
   ('p, 'n) factor list \<times> robot_id list \<times> ((robot_id \<times> robot_id) \<rightharpoonup> ('p, 'n) between list)"
  where
  "serve_pair self acc pair =
     (case acc of (graph, connected_robots, closures) \<Rightarrow>
      (let min_robot_id = min (fst pair) (snd pair);
           max_robot_id = max (fst pair) (snd pair);
           closures' = map_touch [] closures (min_robot_id, max_robot_id)
       in if length (map_at [] closures (min_robot_id, max_robot_id)) > 0 then
            (if min_robot_id = self
             then graph @ map Between (map_at [] closures (min_robot_id, max_robot_id))
             else graph,
             set_insert max_robot_id connected_robots,
             closures')
          else (graph, connected_robots, closures')))"

definition get_pose_graph_callback ::
  "('p, 'n) manager \<Rightarrow> robot_id list \<Rightarrow> ('p, 'n) PoseGraph \<times> ('p, 'n) manager" where
  "get_pose_graph_callback st ids =
     (case foldl (serve_pair (robot_id st))
             (pose_graph st, [], inter_robot_loop_closures st) (index_pairs ids) of
        (graph, connected_robots, closures) \<Rightarrow>
          (\<lparr> msg_robot_id = robot_id st,
              msg_values = current_pose_estimates st,
              msg_edges = graph,
              msg_connected_robots = connected_robots \<rparr>,
           st\<lparr>inter_robot_loop_closures := closures\<rparr>))"

definition pose_graph_callback ::
  "('p, 'n) manager \<Rightarrow> ('p, 'n) PoseGraph \<Rightarrow> ('p, 'n) manager" where
  "pose_graph_callback st msg =
     (let st1 = st\<lparr> other_robots_graph_and_estimates :=
                      map_insert (other_robots_graph_and_estimates st) (msg_robot_id msg)
                        (msg_edges msg, msg_values msg),
                    received_pose_graphs :=
                      (received_pose_graphs st)(msg_robot_id msg \<mapsto> True),
                    received_pose_graphs_connectivity :=
                      map_insert (received_pose_graphs_connectivity st) (msg_robot_id msg)
                        (msg_connected_robots msg) \<rparr>
      in case check_received_pose_graphs st1 of
           (received_all, st2) \<Rightarrow>
             if received_all
             then (end_waiting st2)\<lparr>optimizer_state := OPTIMIZATION\<rparr>
             else st2)"

section \<open>Aggregator\<close>

text \<open>
  \<open>is_pose_graph_connected\<close> is a local \<^verbatim>\<open>std::map<unsigned int, bool>\<close> that is only
  read with \<^verbatim>\<open>operator[]\<close> and dropped on return: a read is the entry, or false when there
  is none.
\<close>

text \<open>The body of the inner loop over the pairs of \<open>included_robots_ids\<close>.\<close>

definition add_pair ::
  "(robot_id \<rightharpoonup> bool) \<Rightarrow>
   ('p, 'n) factor list \<times> ((robot_id \<times> robot_id) \<rightharpoonup> ('p, 'n) between list) \<Rightarrow>
   robot_id \<times> robot_id \<Rightarrow>
   ('p, 'n) factor list \<times> ((robot_id \<times> robot_id) \<rightharpoonup> ('p, 'n) between list)" where
  "add_pair is_pose_graph_connected acc pair =
     (case acc of (graph, closures) \<Rightarrow>
      if map_at False is_pose_graph_connected (fst pair)
         \<and> map_at False is_pose_graph_connected (snd pair)
      then
        (let min_id = min (fst pair) (snd pair);
             max_id = max (fst pair) (snd pair)
         in (graph @ map Between (map_at [] closures (min_id, max_id)),
             map_touch [] closures (min_id, max_id)))
      else (graph, closures))"

text \<open>
  The loop that inserts the values of the connected neighbours.  A neighbour without an
  entry in \<open>other_robots_graph_and_estimates\<close> gets a pair of null pointers from
  \<^verbatim>\<open>operator[]\<close>, which the loop dereferences.
\<close>

fun insert_neighbors_estimates ::
  "(robot_id \<rightharpoonup> bool) \<Rightarrow> (robot_id \<rightharpoonup> (('p, 'n) factor list \<times> 'p values_t)) \<Rightarrow>
   'p values_t \<Rightarrow> robot_id list \<Rightarrow> error + 'p values_t" where
  "insert_neighbors_estimates is_pose_graph_connected others estimates [] = Inr estimates"
| "insert_neighbors_estimates is_pose_graph_connected others estimates (rid # ids) =
     (if map_at False is_pose_graph_connected rid then
        (case others rid of
           None \<Rightarrow> Inl NullPointer
         | Some graph_and_estimates \<Rightarrow>
             (case values_insert_all estimates (snd graph_and_estimates) of
                Inl e \<Rightarrow> Inl e
              | Inr estimates' \<Rightarrow>
                  insert_neighbors_estimates is_pose_graph_connected others estimates' ids))
      else insert_neighbors_estimates is_pose_graph_connected others estimates ids)"

text \<open>
  The loop over the factors received from one neighbour.  The
  \<^verbatim>\<open>boost::dynamic_pointer_cast\<close> to a between factor yields a null pointer for a factor of
  another kind, and the next statement calls \<^verbatim>\<open>key1()\<close> through it.
\<close>

fun add_received_factors ::
  "('p, 'n) env \<Rightarrow> (robot_id \<rightharpoonup> bool) \<Rightarrow> ('p, 'n) factor list \<Rightarrow> ('p, 'n) factor list \<Rightarrow>
     error + ('p, 'n) factor list" where
  "add_received_factors env is_pose_graph_connected graph [] = Inr graph"
| "add_received_factors env is_pose_graph_connected graph (factor0 # rest) =
     (case factor0 of
        Between factor \<Rightarrow>
          (let robot0_id = ROBOT_ID env (label (key1 factor));
               robot1_id = ROBOT_ID env (label (key2 factor))
           in if map_at False is_pose_graph_connected robot0_id
                 \<and> map_at False is_pose_graph_connected robot1_id
              then add_received_factors env is_pose_graph_connected (graph @ [Between factor]) rest
              else add_received_factors env is_pose_graph_connected graph rest)
      | Prior k p n \<Rightarrow> Inl NullPointer)"

fun add_neighbors_factors ::
  "('p, 'n) env \<Rightarrow> (robot_id \<rightharpoonup> bool) \<Rightarrow>
   (robot_id \<rightharpoonup> (('p, 'n) factor list \<times> 'p values_t)) \<Rightarrow>
   ('p, 'n) factor list \<Rightarrow> robot_id list \<Rightarrow> error + ('p, 'n) factor list" where
  "add_neighbors_factors env is_pose_graph_connected others graph [] = Inr graph"
| "add_neighbors_factors env is_pose_graph_connected others graph (rid # ids) =
     (case others rid of
        None \<Rightarrow> Inl NullPointer
      | Some graph_and_estimates \<Rightarrow>
          (case add_received_factors env is_pose_graph_connected graph
                  (fst graph_and_estimates) of
             Inl e \<Rightarrow> Inl e
           | Inr graph' \<Rightarrow>
               add_neighbors_factors env is_pose_graph_connected others graph' ids))"

definition aggregate_pose_graphs ::
  "('p, 'n) env \<Rightarrow> ('p, 'n) manager \<Rightarrow>
     error + ((('p, 'n) factor list \<times> 'p values_t) \<times> ('p, 'n) manager)" where
  "aggregate_pose_graphs env st =
     (case connected_robot_pose_graph st of
        Inl e \<Rightarrow> Inl e
      | Inr (is_pose_graph_connected, st1) \<Rightarrow>
          (let included_robots_ids = current_neighbors_ids st1 @ [robot_id st1] in
           case foldl (add_pair is_pose_graph_connected)
                  (pose_graph st1, inter_robot_loop_closures st1)
                  (index_pairs included_robots_ids) of
             (graph, closures) \<Rightarrow>
           (case values_insert_all [] (current_pose_estimates st1) of
              Inl e \<Rightarrow> Inl e
            | Inr estimates0 \<Rightarrow>
           (case insert_neighbors_estimates is_pose_graph_connected
                   (other_robots_graph_and_estimates st1) estimates0
                   (current_neighbors_ids st1) of
              Inl e \<Rightarrow> Inl e
            | Inr estimates \<Rightarrow>
           (case add_neighbors_factors env is_pose_graph_connected
                   (other_robots_graph_and_estimates st1) graph
                   (current_neighbors_ids st1) of
              Inl e \<Rightarrow> Inl e
            | Inr graph' \<Rightarrow>
                Inr ((graph', estimates), st1\<lparr>inter_robot_loop_closures := closures\<rparr>))))))"

section \<open>Optimizer state machine\<close>

definition check_waiting_timeout :: "int \<Rightarrow> ('p, 'n) manager \<Rightarrow> bool \<times> ('p, 'n) manager" where
  "check_waiting_timeout now st =
     (let st' = (if now - start_waiting_time st > max_waiting_time_sec st
                 then (end_waiting st)\<lparr>optimizer_state := IDLE\<rparr>
                 else st)
      in (is_waiting st', st'))"

text \<open>The trigger tick; \<open>now\<close> is the reading of the node clock taken by \<^verbatim>\<open>start_waiting\<close>.\<close>

definition optimization_callback ::
  "int \<Rightarrow> ('p, 'n) manager \<Rightarrow> ('p, 'n) published list \<times> ('p, 'n) manager" where
  "optimization_callback now st =
     (if optimizer_state st = IDLE
      then ([GetCurrentNeighbors], start_waiting now (reinitialize_received_pose_graphs st))
      else ([], st))"

definition perform_optimization ::
  "('p, 'n) env \<Rightarrow> ('p::one, 'n) manager \<Rightarrow>
     error + (('p, 'n) published list \<times> ('p, 'n) manager)" where
  "perform_optimization env st =
     (case aggregate_pose_graphs env st of
        Inl e \<Rightarrow> Inl e
      | Inr (graph_and_estimates, st1) \<Rightarrow>
          (let first_symbol = LabeledSymbol (GRAPH_LABEL env) (ROBOT_LABEL env (robot_id st1)) 0;
               graph = fst graph_and_estimates @ [Prior first_symbol 1 (default_noise_model st1)]
           in case gnc_optimize env graph (snd graph_and_estimates) of
                Inl e \<Rightarrow> Inl e
              | Inr result \<Rightarrow> Inr ([OptimizationResult True graph result], st1)))"

text \<open>
  The requests of the \<open>POSEGRAPH_COLLECTION\<close> branch.  The constructor creates the
  publishers of the robots below \<open>nb_robots\<close>; for another id \<^verbatim>\<open>operator[]\<close> yields a null
  pointer, through which \<^verbatim>\<open>publish\<close> is called.
\<close>

fun request_pose_graphs ::
  "('p, 'n) manager \<Rightarrow> robot_id list \<Rightarrow> error + ('p, 'n) published list" where
  "request_pose_graphs st [] = Inr []"
| "request_pose_graphs st (rid # ids) =
     (if rid < nb_robots st then
        (case request_pose_graphs st ids of
           Inl e \<Rightarrow> Inl e
         | Inr requests \<Rightarrow>
             Inr (GetPoseGraph rid (current_neighbors_ids st @ [robot_id st]) # requests))
      else Inl NullPointer)"

text \<open>The loop tick; \<open>now\<close> is the reading of the node clock.\<close>

definition optimization_loop_callback ::
  "('p, 'n) env \<Rightarrow> int \<Rightarrow> ('p::one, 'n) manager \<Rightarrow>
     error + (('p, 'n) published list \<times> ('p, 'n) manager)" where
  "optimization_loop_callback env now st =
     (case
        (if current_pose_estimates st \<noteq> [] then
           (if optimizer_state st = POSEGRAPH_COLLECTION then
              (if length (current_neighbors_ids st) > 0 then
                 (case request_pose_graphs st (current_neighbors_ids st) of
                    Inl e \<Rightarrow> Inl e
                  | Inr requests \<Rightarrow> Inr (requests, start_waiting now st))
               else Inr ([], st\<lparr>optimizer_state := IDLE\<rparr>))
            else if optimizer_state st = OPTIMIZATION then
              (case perform_optimization env st of
                 Inl e \<Rightarrow> Inl e
               | Inr (results, st1) \<Rightarrow> Inr (results, st1\<lparr>optimizer_state := IDLE\<rparr>))
            else if optimizer_state st = WAITING then
              Inr ([], snd (check_waiting_timeout now st))
            else Inr ([], st))
         else Inr ([], st)) of
        Inl e \<Rightarrow> Inl e
      | Inr (outs, st') \<Rightarrow> Inr (outs @ [OptimizerStateMsg (optimizer_state st')], st'))"

section \<open>Notions used to state the properties\<close>

text \<open>
  The robots whose cell of \<open>visited\<close> is set: those with an in-range index holding true.
\<close>

definition marked :: "bool list \<Rightarrow> robot_id set" where
  "marked visited = {i. unat i < length visited \<and> visited ! unat i}"

text \<open>
  The ids the search touches, that is, uses as an index into \<open>visited\<close>: the id of self,
  and every id in the declared connectivity list of a touched id.  A declaration of a
  robot that the search does not reach plays no part.  (A run that leaves \<open>visited\<close> ends
  at the first touched id that is out of range.)
\<close>

inductive_set searched :: "(robot_id \<Rightarrow> robot_id list) \<Rightarrow> robot_id \<Rightarrow> robot_id set"
  for declared :: "robot_id \<Rightarrow> robot_id list" and self :: robot_id where
  start: "self \<in> searched declared self"
| step: "r \<in> searched declared self \<Longrightarrow> i \<in> set (declared r) \<Longrightarrow> i \<in> searched declared self"

definition touched :: "('p, 'n) manager \<Rightarrow> robot_id set" where
  "touched st = searched (map_at [] (received_pose_graphs_connectivity st)) (robot_id st)"

definition true_ids :: "(robot_id \<rightharpoonup> bool) \<Rightarrow> robot_id set" where
  "true_ids m = {i. m i = Some True}"

text \<open>The stored loop closures of the pair \<open>{i, j}\<close>, read as the callbacks read them.\<close>

definition closures_of ::
  "('p, 'n) manager \<Rightarrow> robot_id \<Rightarrow> robot_id \<Rightarrow> ('p, 'n) between list" where
  "closures_of st i j = map_at [] (inter_robot_loop_closures st) (min i j, max i j)"

text \<open>
  A FIFO sequence of keyframe events: the callback runs once for each event, and an
  exception ends the run.
\<close>

fun odometry_callbacks ::
  "('p, 'n) env \<Rightarrow> ('p::{one,times,inverse}, 'n) manager \<Rightarrow> 'p KeyframeOdom list \<Rightarrow>
     error + ('p, 'n) manager" where
  "odometry_callbacks env st [] = Inr st"
| "odometry_callbacks env st (msg # msgs) =
     (case odometry_callback env st msg of
        Inl e \<Rightarrow> Inl e
      | Inr st' \<Rightarrow> odometry_callbacks env st' msgs)"

text \<open>
  The symbol of a keyframe of robot \<open>rid\<close>, and the odometry factor from keyframe \<open>a\<close> to
  keyframe \<open>b\<close>: its measurement is the pose of \<open>b\<close> composed with the inverse pose of \<open>a\<close>.
\<close>

definition keyframe_symbol :: "('p, 'n) env \<Rightarrow> robot_id \<Rightarrow> 'p KeyframeOdom \<Rightarrow> symbol" where
  "keyframe_symbol env rid msg =
     LabeledSymbol (GRAPH_LABEL env) (ROBOT_LABEL env rid) (ucast (keyframe_id msg))"

definition odometry_factor ::
  "('p, 'n) env \<Rightarrow> robot_id \<Rightarrow> 'n \<Rightarrow> 'p KeyframeOdom \<Rightarrow> 'p::{times,inverse} KeyframeOdom \<Rightarrow>
     ('p, 'n) factor" where
  "odometry_factor env rid nm a b =
     Between (BetweenFactor (keyframe_symbol env rid a) (keyframe_symbol env rid b)
       (odom b * inverse (odom a)) nm)"

text \<open>
  The events of a manager: the two timer ticks, each with the reading of the node clock,
  and the messages of its subscriptions.  Each event runs its callback; an exception
  ends the run.
\<close>

datatype ('p, 'n) event =
  TriggerTick int
| LoopTick int
| KeyframeEvent "'p KeyframeOdom"
| LoopClosureEvent "'p InterRobotLoopClosure"
| NeighborsEvent "robot_id list"
| RequestEvent "robot_id list"
| SubGraphEvent "('p, 'n) PoseGraph"

fun handle_event ::
  "('p, 'n) env \<Rightarrow> ('p::{one,times,inverse}, 'n) manager \<Rightarrow> ('p, 'n) event \<Rightarrow>
     error + (('p, 'n) published list \<times> ('p, 'n) manager)" where
  "handle_event env st (TriggerTick now) = Inr (optimization_callback now st)"
| "handle_event env st (LoopTick now) = optimization_loop_callback env now st"
| "handle_event env st (KeyframeEvent msg) =
     (case odometry_callback env st msg of
        Inl e \<Rightarrow> Inl e
      | Inr st' \<Rightarrow> Inr ([], st'))"
| "handle_event env st (LoopClosureEvent msg) =
     Inr ([], inter_robot_loop_closure_callback env st msg)"
| "handle_event env st (NeighborsEvent ids) = Inr ([], current_neighbors_callback st ids)"
| "handle_event env st (RequestEvent ids) =
     (case get_pose_graph_callback st ids of
        (out_msg, st') \<Rightarrow> Inr ([PublishedPoseGraph out_msg], st'))"
| "handle_event env st (SubGraphEvent pg) = Inr ([], pose_graph_callback st pg)"

fun run_events ::
  "('p, 'n) env \<Rightarrow> ('p::{one,times,inverse}, 'n) manager \<Rightarrow> ('p, 'n) event list \<Rightarrow>
     error + (('p, 'n) published list \<times> ('p, 'n) manager)" where
  "run_events env st [] = Inr ([], st)"
| "run_events env st (ev # evs) =
     (case handle_event env st ev of
        Inl e \<Rightarrow> Inl e
      | Inr (outs, st') \<Rightarrow>
          (case run_events env st' evs of
             Inl e \<Rightarrow> Inl e
           | Inr (outs', st'') \<Rightarrow> Inr (outs @ outs', st'')))"

text \<open>
  A sub-graph completes the received set when, with it recorded, every current neighbour
  has the received flag: each is the sender or had the flag already.  The events that
  complete a wait are a neighbours response and such a sub-graph.
\<close>

definition completes :: "('p, 'n) manager \<Rightarrow> ('p, 'n) PoseGraph \<Rightarrow> bool" where
  "completes st pg \<longleftrightarrow>
     (\<forall>n \<in> set (current_neighbors_ids st).
        n = msg_robot_id pg \<or> received_pose_graphs st n = Some True)"

fun completion_event :: "('p, 'n) manager \<Rightarrow> ('p, 'n) event \<Rightarrow> bool" where
  "completion_event st (NeighborsEvent ids) = True"
| "completion_event st (SubGraphEvent pg) = completes st pg"
| "completion_event st ev = False"

text \<open>
  The loop tick that times out: it comes later than \<open>max_waiting_time\<close> after
  \<open>start_waiting_time\<close> while \<open>current_pose_estimates\<close> is not empty.
\<close>

fun timeout_tick :: "('p, 'n) manager \<Rightarrow> ('p, 'n) event \<Rightarrow> bool" where
  "timeout_tick st (LoopTick now) =
     (now - start_waiting_time st > max_waiting_time_sec st \<and> current_pose_estimates st \<noteq> [])"
| "timeout_tick st ev = False"

text \<open>
  A sequence of events during a wait, each handled without an exception, with no
  completion event and no loop tick that times out.
\<close>

fun wait_continues ::
  "('p, 'n) env \<Rightarrow> ('p::{one,times,inverse}, 'n) manager \<Rightarrow> ('p, 'n) event list \<Rightarrow> bool" where
  "wait_continues env st [] = True"
| "wait_continues env st (ev # evs) =
     (\<not> completion_event st ev \<and> \<not> timeout_tick st ev \<and>
      (case handle_event env st ev of
         Inl e \<Rightarrow> False
       | Inr (outs, st') \<Rightarrow> wait_continues env st' evs))"

text \<open>
  A factor whose endpoints both belong to robots that the connectivity map sends to true.
  The robot of an endpoint is read from the label of its key, as the aggregator does.
\<close>

definition factor_connected ::
  "('p, 'n) env \<Rightarrow> (robot_id \<rightharpoonup> bool) \<Rightarrow> ('p, 'n) factor \<Rightarrow> bool" where
  "factor_connected env m f =
     (case f of
        Between b \<Rightarrow> m (ROBOT_ID env (label (key1 b))) = Some True
                      \<and> m (ROBOT_ID env (label (key2 b))) = Some True
      | Prior k p n \<Rightarrow> False)"

text \<open>What was received from robot \<open>n\<close> in this round; nothing when there is no entry.\<close>

definition received_graph :: "('p, 'n) manager \<Rightarrow> robot_id \<Rightarrow> ('p, 'n) factor list" where
  "received_graph st n =
     (case other_robots_graph_and_estimates st n of None \<Rightarrow> [] | Some ge \<Rightarrow> fst ge)"

definition received_values :: "('p, 'n) manager \<Rightarrow> robot_id \<Rightarrow> 'p values_t" where
  "received_values st n =
     (case other_robots_graph_and_estimates st n of None \<Rightarrow> [] | Some ge \<Rightarrow> snd ge)"

text \<open>
  The stored loop closures that the aggregator takes for a connectivity map \<open>m\<close>: those of
  the pairs of \<open>current_neighbors \<union> {self}\<close> whose two ids are sent to true.
\<close>

definition own_closures ::
  "('p, 'n) manager \<Rightarrow> (robot_id \<rightharpoonup> bool) \<Rightarrow> ('p, 'n) factor list" where
  "own_closures st m =
     concat (map (\<lambda>p. if m (fst p) = Some True \<and> m (snd p) = Some True
                       then map Between (closures_of st (fst p) (snd p)) else [])
               (index_pairs (current_neighbors_ids st @ [robot_id st])))"

text \<open>
  What the aggregator returns when nothing fails: the estimates of self followed by the
  values of the connected neighbours, and the local graph followed by the stored
  closures of the connected pairs and by the received factors that are connected.
\<close>

definition joint_values :: "('p, 'n) manager \<Rightarrow> (robot_id \<rightharpoonup> bool) \<Rightarrow> 'p values_t" where
  "joint_values st m =
     current_pose_estimates st @
     concat (map (\<lambda>n. if m n = Some True then received_values st n else [])
       (current_neighbors_ids st))"

definition joint_factors ::
  "('p, 'n) env \<Rightarrow> ('p, 'n) manager \<Rightarrow> (robot_id \<rightharpoonup> bool) \<Rightarrow> ('p, 'n) factor list" where
  "joint_factors env st m =
     (pose_graph st @ own_closures st m) @
     concat (map (\<lambda>n. filter (factor_connected env m) (received_graph st n))
       (current_neighbors_ids st))"

text \<open>
  The invariants 1 and 2 of the data model: the factors of the local graph join keys of
  self, and the factors stored for the pair \<open>(i, j)\<close> join a key of \<open>i\<close> and a key of \<open>j\<close>.
\<close>

definition local_graph_inv :: "('p, 'n) env \<Rightarrow> ('p, 'n) manager \<Rightarrow> bool" where
  "local_graph_inv env st \<longleftrightarrow>
     (\<forall>f \<in> set (pose_graph st). \<exists>b. f = Between b
         \<and> ROBOT_ID env (label (key1 b)) = robot_id st
         \<and> ROBOT_ID env (label (key2 b)) = robot_id st)
     \<and> (latest_local_symbol st \<noteq> default_symbol \<longrightarrow>
          ROBOT_ID env (label (latest_local_symbol st)) = robot_id st)"

definition closure_store_inv :: "('p, 'n) env \<Rightarrow> ('p, 'n) manager \<Rightarrow> bool" where
  "closure_store_inv env st \<longleftrightarrow>
     (\<forall>i j. \<forall>f \<in> set (map_at [] (inter_robot_loop_closures st) (i, j)).
        {ROBOT_ID env (label (key1 f)), ROBOT_ID env (label (key2 f))} = {i, j})"

text \<open>
  The part of the state that the two invariants speak about is the same in both states.
\<close>

definition same_graphs :: "('p, 'n) manager \<Rightarrow> ('p, 'n) manager \<Rightarrow> bool" where
  "same_graphs st st' \<longleftrightarrow>
     robot_id st' = robot_id st \<and> pose_graph st' = pose_graph st
     \<and> latest_local_symbol st' = latest_local_symbol st
     \<and> (\<forall>k. map_at [] (inter_robot_loop_closures st') k
              = map_at [] (inter_robot_loop_closures st) k)"

text \<open>
  The states of a manager: the constructed one, and the state after any callback that
  returns.  The messages are arbitrary, except that the label macros are taken to
  round-trip on the robot id of self and on the two robot ids of a loop closure.
\<close>

inductive reachable ::
  "('p::{one,times,inverse}, 'n) env \<Rightarrow> ('p, 'n) manager \<Rightarrow> bool"
  for env :: "('p::{one,times,inverse}, 'n) env" where
  constructed:
    "ROBOT_ID env (ROBOT_LABEL env rid) = rid \<Longrightarrow> reachable env (PoseGraphManager nb rid w nm)"
| odometry:
    "reachable env st \<Longrightarrow> odometry_callback env st msg = Inr st' \<Longrightarrow> reachable env st'"
| loop_closure:
    "reachable env st \<Longrightarrow>
     ROBOT_ID env (ROBOT_LABEL env (robot0_id msg)) = robot0_id msg \<Longrightarrow>
     ROBOT_ID env (ROBOT_LABEL env (robot1_id msg)) = robot1_id msg \<Longrightarrow>
     reachable env (inter_robot_loop_closure_callback env st msg)"
| neighbors:
    "reachable env st \<Longrightarrow> reachable env (current_neighbors_callback st ids)"
| serve:
    "reachable env st \<Longrightarrow> reachable env (snd (get_pose_graph_callback st ids))"
| receive:
    "reachable env st \<Longrightarrow> reachable env (pose_graph_callback st pg)"
| trigger_tick:
    "reachable env st \<Longrightarrow> reachable env (snd (optimization_callback now st))"
| loop_tick:
    "reachable env st \<Longrightarrow> optimization_loop_callback env now st = Inr (outs, st') \<Longrightarrow>
     reachable env st'"

section \<open>Example states\<close>

text \<open>
  Robot 0 of a fleet, told that its neighbours are robot 1 (first state) or robots 2 and
  3 (second state), after it has received on the fleet-wide topic a sub-graph published
  by robot 0 that declares robot 1 as connected.
\<close>

definition two_robots :: "(real, unit) manager" where
  "two_robots =
     pose_graph_callback (current_neighbors_callback (PoseGraphManager 2 0 60 ()) [1])
       \<lparr>msg_robot_id = 0, msg_values = [], msg_edges = [], msg_connected_robots = [1]\<rparr>"

definition three_robots :: "(real, unit) manager" where
  "three_robots =
     pose_graph_callback (current_neighbors_callback (PoseGraphManager 4 0 60 ()) [2, 3])
       \<lparr>msg_robot_id = 0, msg_values = [], msg_edges = [], msg_connected_robots = [1]\<rparr>"

text \<open>
  Macros with a printable offset (\<open>'g'\<close> is 103 and \<open>'a'\<close> is 97), and an optimizer that
  returns its initial values.
\<close>

definition example_env :: "(real, unit) env" where
  "example_env =
     \<lparr> GRAPH_LABEL = 103,
       ROBOT_LABEL = (\<lambda>i. ucast i + 97),
       ROBOT_ID = (\<lambda>c. ucast c - 97),
       gnc_optimize = (\<lambda>graph estimates. Inr estimates) \<rparr>"

text \<open>Robot 0 of three, after a loop closure between robots 1 and 2 was announced.\<close>

definition heard_closure :: "(real, unit) manager" where
  "heard_closure =
     inter_robot_loop_closure_callback example_env (PoseGraphManager 3 0 60 ())
       \<lparr> success = True, robot0_id = 1, robot0_image_id = 4,
         robot1_id = 2, robot1_image_id = 7, transform = 1 \<rparr>"

text \<open>
  Robot 0 of three with two keyframes, after loop closures were announced for the pairs
  \<open>{0, 1}\<close>, \<open>{0, 2}\<close> and \<open>{1, 2}\<close>.
\<close>

definition two_keyframes :: "(real, unit) manager" where
  "two_keyframes =
     (case odometry_callbacks example_env (PoseGraphManager 3 0 60 ())
             [\<lparr>keyframe_id = 0, odom = 1\<rparr>, \<lparr>keyframe_id = 1, odom = 2\<rparr>] of
        Inl e \<Rightarrow> PoseGraphManager 3 0 60 ()
      | Inr st \<Rightarrow> st)"

definition serving_robot :: "(real, unit) manager" where
  "serving_robot =
     foldl (inter_robot_loop_closure_callback example_env) two_keyframes
       [\<lparr> success = True, robot0_id = 0, robot0_image_id = 1,
          robot1_id = 1, robot1_image_id = 0, transform = 1 \<rparr>,
        \<lparr> success = True, robot0_id = 2, robot0_image_id = 3,
          robot1_id = 0, robot1_image_id = 1, transform = 1 \<rparr>,
        \<lparr> success = True, robot0_id = 1, robot0_image_id = 4,
          robot1_id = 2, robot1_image_id = 7, transform = 1 \<rparr>]"

text \<open>A fresh robot 0 whose trigger tick has fired at time 0: it waits for its neighbours.\<close>

definition waiting_fresh :: "(real, unit) manager" where
  "waiting_fresh = snd (optimization_callback 0 (PoseGraphManager 2 0 60 ()))"

text \<open>
  Robot 0 with two keyframes in the second wait of a round: its trigger tick fired at
  time 0, the neighbours 1 and 2 were reported, and the loop tick at 1 s sent the
  sub-graph requests.
\<close>

definition waiting_for_graphs :: "(real, unit) manager" where
  "waiting_for_graphs =
     (case run_events example_env two_keyframes
             [TriggerTick 0, NeighborsEvent [1, 2], LoopTick 1000000000] of
        Inl e \<Rightarrow> two_keyframes
      | Inr (outs, st) \<Rightarrow> st)"

text \<open>
  The serving robot above in a round with the neighbours 1 and 2, after three sub-graphs
  arrived: its own (published for a request of robot 1), the one of robot 1 and the one
  of robot 2, which declares no connection.
\<close>

definition collected :: "(real, unit) manager" where
  "collected =
     foldl pose_graph_callback (current_neighbors_callback serving_robot [1, 2])
       [fst (get_pose_graph_callback serving_robot [0, 1]),
        \<lparr> msg_robot_id = 1,
          msg_values = [(LabeledSymbol 103 98 0, 1), (LabeledSymbol 103 98 1, 3)],
          msg_edges = [Between (BetweenFactor (LabeledSymbol 103 98 0) (LabeledSymbol 103 98 1) 3 ())],
          msg_connected_robots = [1] \<rparr>,
        \<lparr> msg_robot_id = 2,
          msg_values = [(LabeledSymbol 103 99 0, 1)],
          msg_edges = [Between (BetweenFactor (LabeledSymbol 103 99 0) (LabeledSymbol 103 99 1) 5 ())],
          msg_connected_robots = [] \<rparr>]"

text \<open>Robot 0 with the neighbour 1, whose sub-graph holds a prior factor.\<close>

definition received_prior :: "(real, unit) manager" where
  "received_prior =
     pose_graph_callback (current_neighbors_callback two_keyframes [1])
       \<lparr> msg_robot_id = 1, msg_values = [],
         msg_edges = [Prior (LabeledSymbol 103 98 0) 1 ()],
         msg_connected_robots = [] \<rparr>"

text \<open>
  Robot 0 with the neighbours 1 and 2; robot 1 is declared connected and its values
  contain the symbol of keyframe 0 of robot 0.
\<close>

definition colliding_values :: "(real, unit) manager" where
  "colliding_values =
     foldl pose_graph_callback (current_neighbors_callback two_keyframes [1, 2])
       [\<lparr>msg_robot_id = 0, msg_values = [], msg_edges = [], msg_connected_robots = [1]\<rparr>,
        \<lparr>msg_robot_id = 1, msg_values = [(LabeledSymbol 103 97 0, 5)], msg_edges = [],
          msg_connected_robots = []\<rparr>,
        \<lparr>msg_robot_id = 2, msg_values = [], msg_edges = [], msg_connected_robots = []\<rparr>]"

section \<open>The connectivity resolver: what the search computes\<close>

lemma map_at_touch [simp]: "map_at d (map_touch d m k) k' = map_at d m k'"
  by (simp add: map_at_def map_touch_def split: option.splits)


lemma marked_update:
  "unat i < length vis \<Longrightarrow> marked (vis[unat i := True]) = insert i (marked vis)"
  by (auto simp: marked_def nth_list_update word_unat_eq_iff)

lemma true_ids_update: "true_ids (m(i \<mapsto> True)) = insert i (true_ids m)"
  by (auto simp: true_ids_def)

lemma visit_ids_Inr_iff:
  "(\<exists>r. visit_ids ids m vis q = Inr r) \<longleftrightarrow> (\<forall>i \<in> set ids. unat i < length vis)"
  by (induction ids arbitrary: m vis q) (auto simp: Let_def)

lemma visit_ids_error:
  "visit_ids ids m vis q = Inl e \<Longrightarrow> e = OutOfBounds"
  by (induction ids arbitrary: m vis q) (auto simp: Let_def split: if_splits)

lemma visit_ids_effect:
  "visit_ids ids m vis q = Inr (m', vis', q') \<Longrightarrow>
     marked vis' = marked vis \<union> set ids \<and>
     set q' = set q \<union> (set ids - marked vis) \<and>
     true_ids m' = true_ids m \<union> set ids"
proof (induction ids arbitrary: m vis q)
  case Nil
  then show ?case by simp
next
  case (Cons i ids)
  show ?case
  proof (cases "unat i < length vis")
    case False
    with Cons.prems show ?thesis by simp
  next
    case inb: True
    show ?thesis
    proof (cases "vis ! unat i")
      case True
      with inb have mk: "i \<in> marked vis" by (simp add: marked_def)
      from True inb Cons.prems
      have "visit_ids ids (m(i \<mapsto> True)) vis q = Inr (m', vis', q')"
        by simp
      from Cons.IH [OF this, unfolded true_ids_update] mk show ?thesis
        by auto
    next
      case False
      with inb have mk: "i \<notin> marked vis" by (simp add: marked_def)
      from False inb Cons.prems
      have "visit_ids ids (m(i \<mapsto> True)) (vis[unat i := True]) (q @ [i]) = Inr (m', vis', q')"
        by simp
      from Cons.IH [OF this, unfolded true_ids_update marked_update [OF inb]] mk show ?thesis
        by auto
    qed
  qed
qed

lemma bfs_loop_error: "bfs_loop c m vis q = Inl e \<Longrightarrow> e = OutOfBounds"
proof (induction c m vis q rule: bfs_loop.induct)
  case (1 c m vis)
  then show ?case by simp
next
  case (2 c m vis cur q)
  show ?case
  proof (cases "visit_ids (map_at [] c cur) m vis q")
    case (Inl e')
    with "2.prems" visit_ids_error [OF Inl] show ?thesis by simp
  next
    case (Inr r)
    obtain m1 vis1 q1 where r: "r = (m1, vis1, q1)" by (cases r) auto
    with Inr "2.prems" have "bfs_loop (map_touch [] c cur) m1 vis1 q1 = Inl e" by simp
    from "2.IH" [OF Inr _ _ this, of "(vis1, q1)"] r show ?thesis by simp
  qed
qed

lemma bfs_loop_total:
  assumes "\<forall>k. map_at [] c k = f k"
    and "\<forall>i \<in> searched f s. unat i < length vis"
    and "set q \<subseteq> marked vis" and "marked vis \<subseteq> searched f s"
  shows "\<exists>r. bfs_loop c m vis q = Inr r"
  using assms
proof (induction c m vis q rule: bfs_loop.induct)
  case (1 c m vis)
  then show ?case by simp
next
  case (2 c m vis cur q)
  from "2.prems" have cur: "cur \<in> searched f s" by auto
  have succ: "set (map_at [] c cur) \<subseteq> searched f s"
    using searched.step [OF cur] "2.prems"(1) by auto
  with "2.prems"(2) have "\<forall>i \<in> set (map_at [] c cur). unat i < length vis" by blast
  then obtain r where Inr: "visit_ids (map_at [] c cur) m vis q = Inr r"
    using visit_ids_Inr_iff [of "map_at [] c cur" m vis q] by blast
  obtain m1 vis1 q1 where r: "r = (m1, vis1, q1)" by (cases r) auto
  note eff = visit_ids_effect [OF Inr [unfolded r]]
  note len = visit_ids_measure [OF Inr [unfolded r]]
  have "\<exists>r. bfs_loop (map_touch [] c cur) m1 vis1 q1 = Inr r"
  proof (rule "2.IH" [OF Inr, of m1 "(vis1, q1)" vis1 q1])
    show "(m1, vis1, q1) = r" by (simp add: r)
    show "(vis1, q1) = (vis1, q1)" by simp
    show "\<forall>k. map_at [] (map_touch [] c cur) k = f k" using "2.prems"(1) by simp
    show "\<forall>i\<in>searched f s. unat i < length vis1" using "2.prems"(2) len by simp
    show "set q1 \<subseteq> marked vis1" using eff "2.prems"(3) by auto
    show "marked vis1 \<subseteq> searched f s" using eff "2.prems"(4) succ by auto
  qed
  with Inr r show ?case by simp
qed

lemma bfs_loop_sound:
  assumes "bfs_loop c m vis q = Inr (m', c')"
    and "\<forall>k. map_at [] c k = f k"
    and "s \<in> marked vis" and "s \<in> true_ids m"
    and "set q \<subseteq> marked vis" and "marked vis \<subseteq> searched f s"
    and "\<forall>a \<in> marked vis - set q. set (f a) \<subseteq> marked vis \<inter> true_ids m"
    and "true_ids m \<subseteq> searched f s"
  shows "true_ids m' = searched f s \<and> (\<forall>i \<in> searched f s. unat i < length vis)
     \<and> (\<forall>k. map_at [] c' k = f k)"
  using assms
proof (induction c m vis q rule: bfs_loop.induct)
  case (1 c m vis)
  have sub: "searched f s \<subseteq> marked vis"
  proof
    fix x assume "x \<in> searched f s"
    then show "x \<in> marked vis"
      by (induction rule: searched.induct) (use "1.prems" in auto)
  qed
  have "searched f s \<subseteq> true_ids m"
  proof
    fix x assume "x \<in> searched f s"
    then show "x \<in> true_ids m"
    proof (cases rule: searched.cases)
      case start
      with "1.prems" show ?thesis by simp
    next
      case (step r)
      with sub have "r \<in> marked vis" by auto
      with step "1.prems"(7) show ?thesis by auto
    qed
  qed
  moreover have "\<forall>i \<in> searched f s. unat i < length vis"
    using sub by (auto simp: marked_def)
  ultimately show ?case using "1.prems" by auto
next
  case (2 c m vis cur q)
  from "2.prems" have cur: "cur \<in> searched f s" by auto
  have fc: "map_at [] c cur = f cur" using "2.prems"(2) by simp
  have succ: "set (f cur) \<subseteq> searched f s"
    using searched.step [OF cur] by auto
  obtain r where Inr: "visit_ids (map_at [] c cur) m vis q = Inr r"
    using "2.prems"(1) by (cases "visit_ids (map_at [] c cur) m vis q") auto
  obtain m1 vis1 q1 where r: "r = (m1, vis1, q1)" by (cases r) auto
  note eff = visit_ids_effect [OF Inr [unfolded r fc]]
  note len = visit_ids_measure [OF Inr [unfolded r]]
  have "true_ids m' = searched f s \<and> (\<forall>i \<in> searched f s. unat i < length vis1)
     \<and> (\<forall>k. map_at [] c' k = f k)"
  proof (rule "2.IH" [OF Inr, of m1 "(vis1, q1)" vis1 q1])
    show "(m1, vis1, q1) = r" by (simp add: r)
    show "(vis1, q1) = (vis1, q1)" by simp
    show "bfs_loop (map_touch [] c cur) m1 vis1 q1 = Inr (m', c')"
      using "2.prems"(1) Inr r by simp
    show "\<forall>k. map_at [] (map_touch [] c cur) k = f k" using "2.prems"(2) by simp
    show "s \<in> marked vis1" using eff "2.prems"(3) by auto
    show "s \<in> true_ids m1" using eff "2.prems"(4) by auto
    show "set q1 \<subseteq> marked vis1" using eff "2.prems"(5) by auto
    show "marked vis1 \<subseteq> searched f s" using eff "2.prems"(6) succ by auto
    show "true_ids m1 \<subseteq> searched f s" using eff "2.prems"(8) succ by auto
    show "\<forall>a \<in> marked vis1 - set q1. set (f a) \<subseteq> marked vis1 \<inter> true_ids m1"
    proof
      fix a assume a: "a \<in> marked vis1 - set q1"
      with eff have am: "a \<in> marked vis" and aq: "a \<notin> set q" by auto
      show "set (f a) \<subseteq> marked vis1 \<inter> true_ids m1"
      proof (cases "a = cur")
        case True
        with eff show ?thesis by auto
      next
        case False
        with am aq have "a \<in> marked vis - set (cur # q)" by simp
        with "2.prems"(7) have "set (f a) \<subseteq> marked vis \<inter> true_ids m" by blast
        with eff show ?thesis by auto
      qed
    qed
  qed
  with len show ?case by simp
qed

lemma true_ids_map_insert_False [simp]: "true_ids (map_insert m r False) = true_ids m"
  by (auto simp: true_ids_def map_insert_def split: option.splits)

lemma true_ids_neighbors [simp]:
  "true_ids (foldl (\<lambda>m rid. map_insert m rid False) m ids) = true_ids m"
  by (induction ids arbitrary: m) simp_all

lemma true_ids_self [simp]: "true_ids (map_insert Map.empty s True) = {s}"
  by (auto simp: true_ids_def map_insert_def)

lemma marked_replicate [simp]: "marked (replicate n False) = {}"
  by (auto simp: marked_def)

lemma connected_robot_pose_graph_error:
  "connected_robot_pose_graph st = Inl e \<Longrightarrow> e = OutOfBounds"
  by (auto simp: connected_robot_pose_graph_def Let_def simp del: bfs_loop.simps
      split: if_splits sum.splits dest: bfs_loop_error)

lemma connected_robot_pose_graph_sound:
  assumes "connected_robot_pose_graph st = Inr (m, st')"
  shows "true_ids m = touched st
    \<and> (\<forall>i \<in> touched st. unat i < length (current_neighbors_ids st))
    \<and> (\<exists>c'. st' = st\<lparr>received_pose_graphs_connectivity := c'\<rparr>
          \<and> (\<forall>k. map_at [] c' k = map_at [] (received_pose_graphs_connectivity st) k))"
proof -
  let ?n = "length (current_neighbors_ids st)"
  let ?m0 = "foldl (\<lambda>m rid. map_insert m rid False)
              (map_insert Map.empty (robot_id st) True) (current_neighbors_ids st)"
  let ?vis = "(replicate ?n False)[unat (robot_id st) := True]"
  let ?c = "received_pose_graphs_connectivity st"
  from assms have inb: "unat (robot_id st) < ?n"
    by (auto simp: connected_robot_pose_graph_def Let_def split: if_splits)
  from assms inb obtain c' where
    run: "bfs_loop ?c ?m0 ?vis [robot_id st] = Inr (m, c')"
    and st': "st' = st\<lparr>received_pose_graphs_connectivity := c'\<rparr>"
    by (auto simp: connected_robot_pose_graph_def Let_def simp del: bfs_loop.simps
        split: sum.splits)
  have mk: "marked ?vis = {robot_id st}"
    using marked_update [of "robot_id st" "replicate ?n False"] inb by simp
  have "true_ids m = searched (map_at [] ?c) (robot_id st)
      \<and> (\<forall>i \<in> searched (map_at [] ?c) (robot_id st). unat i < length ?vis)
      \<and> (\<forall>k. map_at [] c' k = map_at [] ?c k)"
    by (rule bfs_loop_sound [OF run]) (simp_all add: mk searched.start)
  with st' show ?thesis by (auto simp: touched_def)
qed

lemma connected_robot_pose_graph_total:
  assumes "\<forall>i \<in> touched st. unat i < length (current_neighbors_ids st)"
  shows "\<exists>r. connected_robot_pose_graph st = Inr r"
proof -
  let ?n = "length (current_neighbors_ids st)"
  let ?m0 = "foldl (\<lambda>m rid. map_insert m rid False)
              (map_insert Map.empty (robot_id st) True) (current_neighbors_ids st)"
  let ?vis = "(replicate ?n False)[unat (robot_id st) := True]"
  let ?c = "received_pose_graphs_connectivity st"
  have "robot_id st \<in> touched st" by (simp add: touched_def searched.start)
  with assms have inb: "unat (robot_id st) < ?n" by blast
  have mk: "marked ?vis = {robot_id st}"
    using marked_update [of "robot_id st" "replicate ?n False"] inb by simp
  have "\<exists>r. bfs_loop ?c ?m0 ?vis [robot_id st] = Inr r"
    by (rule bfs_loop_total [where f = "map_at [] ?c" and s = "robot_id st"])
      (use assms in \<open>simp_all add: mk searched.start touched_def\<close>)
  then obtain m c' where "bfs_loop ?c ?m0 ?vis [robot_id st] = Inr (m, c')" by auto
  with inb show ?thesis
    by (simp add: connected_robot_pose_graph_def Let_def del: bfs_loop.simps)
qed

text \<open>
  Claim C1.  \<open>visited\<close> has one cell for each entry of the list of current neighbours and
  is indexed by robot id.  The resolver returns, with every access inside \<open>visited\<close>,
  exactly when every id the search touches (self, and each id in the declared list of a
  touched robot) is below the number of current neighbours; it ends with an access
  outside \<open>visited\<close> exactly when some touched id is greater than or equal to that number.
\<close>

theorem C1_visited_out_of_bounds:
  "((\<exists>r. connected_robot_pose_graph st = Inr r) \<longleftrightarrow>
      (\<forall>i \<in> touched st. unat i < length (current_neighbors_ids st)))
   \<and> (connected_robot_pose_graph st = Inl OutOfBounds \<longleftrightarrow>
      (\<exists>i \<in> touched st. length (current_neighbors_ids st) \<le> unat i))"
proof -
  have a: "(\<exists>r. connected_robot_pose_graph st = Inr r) \<longleftrightarrow>
      (\<forall>i \<in> touched st. unat i < length (current_neighbors_ids st))"
    using connected_robot_pose_graph_sound [of st] connected_robot_pose_graph_total [of st]
    by (metis surj_pair)
  have "connected_robot_pose_graph st = Inl OutOfBounds \<longleftrightarrow>
      \<not> (\<exists>r. connected_robot_pose_graph st = Inr r)"
    using connected_robot_pose_graph_error [of st]
    by (cases "connected_robot_pose_graph st") auto
  with a show ?thesis by (auto simp: not_less)
qed


lemma two_robots_fields:
  "robot_id two_robots = 0" "current_neighbors_ids two_robots = [1]"
  "received_pose_graphs_connectivity two_robots = [0 \<mapsto> [1]]"
  by (simp_all add: two_robots_def pose_graph_callback_def current_neighbors_callback_def
      PoseGraphManager_def check_received_pose_graphs_def end_waiting_def map_insert_def
      map_at_def map_touch_def)

lemma two_robots_run: "connected_robot_pose_graph two_robots = Inl OutOfBounds"
  by (simp add: connected_robot_pose_graph_def two_robots_fields map_insert_def map_at_def)

theorem C1_visited_out_of_bounds_witness:
  "connected_robot_pose_graph two_robots = Inl OutOfBounds
   \<and> (\<exists>i \<in> touched two_robots. length (current_neighbors_ids two_robots) \<le> unat i)"
  using C1_visited_out_of_bounds [of two_robots] two_robots_run by simp

lemma three_robots_fields:
  "robot_id three_robots = 0" "current_neighbors_ids three_robots = [2, 3]"
  "received_pose_graphs_connectivity three_robots = [0 \<mapsto> [1]]"
  by (simp_all add: three_robots_def pose_graph_callback_def current_neighbors_callback_def
      PoseGraphManager_def check_received_pose_graphs_def end_waiting_def map_insert_def
      map_at_def map_touch_def)

lemma three_robots_run:
  "(case connected_robot_pose_graph three_robots of
      Inl e \<Rightarrow> None | Inr (m, st') \<Rightarrow> m 1) = Some True"
  by (simp add: connected_robot_pose_graph_def three_robots_fields map_insert_def map_at_def
      map_touch_def)

text \<open>
  Claim C2 as stated fails: robot 0 with the neighbours 2 and 3 holds a declaration that
  lists robot 1; the search stays inside \<open>visited\<close> and the returned map sends robot 1 to
  true, although robot 1 is neither self nor a current neighbour.
\<close>

theorem C2_connected_map_counterexample:
  "(case connected_robot_pose_graph three_robots of
      Inl e \<Rightarrow> None | Inr (m, st') \<Rightarrow> m 1) = Some True
   \<and> (1 :: robot_id) \<notin> insert (robot_id three_robots) (set (current_neighbors_ids three_robots))"
  using three_robots_run by (simp add: three_robots_fields)

text \<open>
  Claim C2, amended.  Whenever the resolver returns, the map sends the id of self to true,
  and the ids it sends to true are exactly the ids the search touched: self, and the ids
  declared in the received connectivity list of a touched robot, whether or not they
  are current neighbours.
\<close>

theorem C2_connected_map:
  assumes "connected_robot_pose_graph st = Inr (m, st')"
  shows "m (robot_id st) = Some True \<and> (\<forall>i. m i = Some True \<longleftrightarrow> i \<in> touched st)"
proof -
  from connected_robot_pose_graph_sound [OF assms] have t: "true_ids m = touched st" by simp
  have "robot_id st \<in> touched st" by (simp add: touched_def searched.start)
  with t show ?thesis by (auto simp: true_ids_def)
qed

theorem C2_connected_map_witness:
  "case connected_robot_pose_graph three_robots of
     Inl e \<Rightarrow> False
   | Inr (m, st') \<Rightarrow>
       m (robot_id three_robots) = Some True \<and> (\<forall>i. m i = Some True \<longleftrightarrow> i \<in> touched three_robots)"
proof (cases "connected_robot_pose_graph three_robots")
  case (Inl e)
  with three_robots_run show ?thesis by simp
next
  case (Inr r)
  obtain m st' where r: "r = (m, st')" by (cases r) auto
  from C2_connected_map [OF Inr [unfolded r]] Inr r show ?thesis by simp
qed

section \<open>Serving a sub-graph\<close>

lemma index_pairs_mem:
  "(a, b) \<in> set (index_pairs xs) \<Longrightarrow> a \<in> set xs \<and> b \<in> set xs \<and> (distinct xs \<longrightarrow> a \<noteq> b)"
  by (induction xs) auto

lemma index_pairs_complete:
  "a \<in> set xs \<Longrightarrow> b \<in> set xs \<Longrightarrow> a \<noteq> b \<Longrightarrow>
     (a, b) \<in> set (index_pairs xs) \<or> (b, a) \<in> set (index_pairs xs)"
  by (induction xs) auto

lemma set_insert_set [simp]: "set (set_insert x xs) = insert x (set xs)"
  by (simp add: set_insert_def set_insort_key insert_absorb)

lemma serve_pairs_effect:
  "foldl (serve_pair self) (g, cr, lcs) ps = (g', cr', lcs') \<Longrightarrow>
     (\<forall>k. map_at [] lcs' k = map_at [] lcs k)
     \<and> g' = g @ concat (map (\<lambda>p. if min (fst p) (snd p) = self
            then map Between (map_at [] lcs (min (fst p) (snd p), max (fst p) (snd p))) else []) ps)
     \<and> set cr' = set cr \<union> {max (fst p) (snd p) | p. p \<in> set ps
            \<and> map_at [] lcs (min (fst p) (snd p), max (fst p) (snd p)) \<noteq> []}"
proof (induction ps arbitrary: g cr lcs)
  case Nil
  then show ?case by simp
next
  case (Cons p ps)
  obtain g1 cr1 lcs1 where s1: "serve_pair self (g, cr, lcs) p = (g1, cr1, lcs1)"
    by (cases "serve_pair self (g, cr, lcs) p") auto
  let ?k = "(min (fst p) (snd p), max (fst p) (snd p))"
  from s1 have l1: "lcs1 = map_touch [] lcs ?k"
    by (auto simp: serve_pair_def Let_def split: if_splits)
  from s1 have g1: "g1 = g @ (if min (fst p) (snd p) = self then map Between (map_at [] lcs ?k) else [])"
    by (auto simp: serve_pair_def Let_def split: if_splits)
  from s1 have c1: "set cr1 = set cr \<union> (if map_at [] lcs ?k \<noteq> [] then {max (fst p) (snd p)} else {})"
    by (auto simp: serve_pair_def Let_def split: if_splits)
  from Cons.prems s1 have "foldl (serve_pair self) (g1, cr1, lcs1) ps = (g', cr', lcs')" by simp
  from Cons.IH [OF this, unfolded l1 map_at_touch] show ?case
    unfolding g1 c1 by (cases p) auto
qed

text \<open>
  Claim C5.  For a request whose ids \<open>R\<close> are pairwise different, the published edges
  start with the whole local graph (the odometry factors), and the factors after it are
  exactly the stored loop closures of the pairs \<open>{i, j}\<close> of \<open>R\<close> whose smaller id is the
  id of self; a pair with an empty store entry contributes nothing, and no closure of a
  pair whose smaller id is another robot is published.
\<close>

theorem C5_published_edges:
  assumes "distinct R"
  shows "take (length (pose_graph st)) (msg_edges (fst (get_pose_graph_callback st R)))
       = pose_graph st
    \<and> set (drop (length (pose_graph st)) (msg_edges (fst (get_pose_graph_callback st R))))
       = {Between f | f i j. i \<in> set R \<and> j \<in> set R \<and> i \<noteq> j \<and> min i j = robot_id st
            \<and> f \<in> set (closures_of st i j)}"
proof -
  obtain g cr lcs where run:
    "foldl (serve_pair (robot_id st)) (pose_graph st, [], inter_robot_loop_closures st)
       (index_pairs R) = (g, cr, lcs)"
    by (metis surj_pair)
  have out: "msg_edges (fst (get_pose_graph_callback st R)) = g"
    by (simp add: get_pose_graph_callback_def run)
  let ?tail = "concat (map (\<lambda>p. if min (fst p) (snd p) = robot_id st
            then map Between (map_at [] (inter_robot_loop_closures st)
                   (min (fst p) (snd p), max (fst p) (snd p))) else []) (index_pairs R))"
  from serve_pairs_effect [OF run] have g: "g = pose_graph st @ ?tail" by simp
  have "set ?tail = {Between f | f i j. i \<in> set R \<and> j \<in> set R \<and> i \<noteq> j \<and> min i j = robot_id st
            \<and> f \<in> set (closures_of st i j)}" (is "?L = ?R")
  proof (intro equalityI subsetI)
    fix x assume "x \<in> ?L"
    then obtain p f where p: "p \<in> set (index_pairs R)" "min (fst p) (snd p) = robot_id st"
      and f: "f \<in> set (map_at [] (inter_robot_loop_closures st)
                   (min (fst p) (snd p), max (fst p) (snd p)))" and x: "x = Between f"
      by (auto split: if_splits)
    from p(1) assms index_pairs_mem [of "fst p" "snd p" R]
    have "fst p \<in> set R" "snd p \<in> set R" "fst p \<noteq> snd p" by auto
    with p f x show "x \<in> ?R" unfolding closures_of_def by blast
  next
    fix x assume "x \<in> ?R"
    then obtain f i j where ij: "i \<in> set R" "j \<in> set R" "i \<noteq> j" "min i j = robot_id st"
      and f: "f \<in> set (closures_of st i j)" and x: "x = Between f" by blast
    from index_pairs_complete [OF ij(1,2,3)] obtain p where
      p: "p \<in> set (index_pairs R)" "min (fst p) (snd p) = min i j" "max (fst p) (snd p) = max i j"
      by (auto simp: min.commute max.commute)
    with f x ij show "x \<in> ?L" unfolding closures_of_def by force
  qed
  with g out show ?thesis by simp
qed

lemma serving_robot_edges:
  "msg_edges (fst (get_pose_graph_callback serving_robot [0, 1, 2])) =
     [Between (BetweenFactor (LabeledSymbol 103 97 0) (LabeledSymbol 103 97 1) 2 ()),
      Between (BetweenFactor (LabeledSymbol 103 97 1) (LabeledSymbol 103 98 0) 1 ()),
      Between (BetweenFactor (LabeledSymbol 103 99 3) (LabeledSymbol 103 97 1) 1 ())]"
  by (simp add: serving_robot_def two_keyframes_def inter_robot_loop_closure_callback_def
     example_env_def odometry_callback_def values_insert_def default_symbol_def
     PoseGraphManager_def get_pose_graph_callback_def serve_pair_def map_at_def map_touch_def
     set_insert_def Let_def)

theorem C5_published_edges_witness:
  "distinct [0, 1, 2 :: robot_id]
   \<and> take (length (pose_graph serving_robot))
        (msg_edges (fst (get_pose_graph_callback serving_robot [0, 1, 2])))
       = pose_graph serving_robot
   \<and> set (drop (length (pose_graph serving_robot))
        (msg_edges (fst (get_pose_graph_callback serving_robot [0, 1, 2]))))
       = {Between f | f i j. i \<in> set [0, 1, 2] \<and> j \<in> set [0, 1, 2] \<and> i \<noteq> j
            \<and> min i j = robot_id serving_robot \<and> f \<in> set (closures_of serving_robot i j)}"
proof -
  have d: "distinct [0, 1, 2 :: robot_id]" by simp
  from C5_published_edges [OF d, of serving_robot] d show ?thesis by blast
qed

lemma heard_closure_out:
  "msg_connected_robots (fst (get_pose_graph_callback heard_closure [0, 1, 2])) = [2]"
  "closures_of heard_closure 0 2 = []"
  "robot_id heard_closure = 0"
  by (simp_all add: heard_closure_def inter_robot_loop_closure_callback_def example_env_def
     PoseGraphManager_def get_pose_graph_callback_def serve_pair_def map_at_def map_touch_def
     set_insert_def closures_of_def Let_def)

text \<open>
  Claim C9 as stated fails: robot 0 has stored a loop closure between robots 1 and 2 and
  none of its own; asked for the ids 0, 1 and 2 it publishes robot 2 as connected,
  although no stored closure joins robot 2 to self.
\<close>

theorem C9_connected_robots_counterexample:
  "msg_connected_robots (fst (get_pose_graph_callback heard_closure [0, 1, 2])) = [2]
   \<and> closures_of heard_closure (robot_id heard_closure) 2 = []"
  using heard_closure_out by simp

text \<open>
  Claim C9, amended.  For a request whose ids \<open>R\<close> are pairwise different, the published
  \<open>connected_robots\<close> are exactly the larger ids of the pairs \<open>{i, j}\<close> of \<open>R\<close> whose store
  entry is not empty; self need not belong to the pair.
\<close>

theorem C9_connected_robots:
  assumes "distinct R"
  shows "set (msg_connected_robots (fst (get_pose_graph_callback st R)))
       = {max i j | i j. i \<in> set R \<and> j \<in> set R \<and> i \<noteq> j \<and> closures_of st i j \<noteq> []}"
proof -
  obtain g cr lcs where run:
    "foldl (serve_pair (robot_id st)) (pose_graph st, [], inter_robot_loop_closures st)
       (index_pairs R) = (g, cr, lcs)"
    by (metis surj_pair)
  have out: "msg_connected_robots (fst (get_pose_graph_callback st R)) = cr"
    by (simp add: get_pose_graph_callback_def run)
  from serve_pairs_effect [OF run]
  have cr: "set cr = {max (fst p) (snd p) | p. p \<in> set (index_pairs R)
            \<and> map_at [] (inter_robot_loop_closures st)
                 (min (fst p) (snd p), max (fst p) (snd p)) \<noteq> []}" (is "_ = ?L") by simp
  have "?L = {max i j | i j. i \<in> set R \<and> j \<in> set R \<and> i \<noteq> j \<and> closures_of st i j \<noteq> []}"
    (is "_ = ?R")
  proof (intro equalityI subsetI)
    fix x assume "x \<in> ?L"
    then obtain p where p: "p \<in> set (index_pairs R)" "x = max (fst p) (snd p)"
      "map_at [] (inter_robot_loop_closures st)
                 (min (fst p) (snd p), max (fst p) (snd p)) \<noteq> []" by blast
    from p(1) assms index_pairs_mem [of "fst p" "snd p" R]
    have "fst p \<in> set R" "snd p \<in> set R" "fst p \<noteq> snd p" by auto
    with p show "x \<in> ?R" unfolding closures_of_def by blast
  next
    fix x assume "x \<in> ?R"
    then obtain i j where ij: "i \<in> set R" "j \<in> set R" "i \<noteq> j" "closures_of st i j \<noteq> []"
      "x = max i j" by blast
    from index_pairs_complete [OF ij(1,2,3)] obtain p where
      p: "p \<in> set (index_pairs R)" "min (fst p) (snd p) = min i j" "max (fst p) (snd p) = max i j"
      by (auto simp: min.commute max.commute)
    with ij have "x = max (fst p) (snd p)"
      "map_at [] (inter_robot_loop_closures st)
         (min (fst p) (snd p), max (fst p) (snd p)) \<noteq> []"
      by (simp_all add: closures_of_def)
    with p(1) show "x \<in> ?L" by blast
  qed
  with cr out show ?thesis by simp
qed

theorem C9_connected_robots_witness:
  "distinct [0, 1, 2 :: robot_id]
   \<and> set (msg_connected_robots (fst (get_pose_graph_callback heard_closure [0, 1, 2])))
       = {max i j | i j. i \<in> set [0, 1, 2] \<and> j \<in> set [0, 1, 2] \<and> i \<noteq> j
            \<and> closures_of heard_closure i j \<noteq> []}"
proof -
  have d: "distinct [0, 1, 2 :: robot_id]" by simp
  from C9_connected_robots [OF d, of heard_closure] d show ?thesis by blast
qed

section \<open>Receiving a sub-graph\<close>

lemma check_received_no_neighbors:
  "current_neighbors_ids st = [] \<Longrightarrow> check_received_pose_graphs st = (True, st)"
  by (simp add: check_received_pose_graphs_def)

text \<open>
  Claim C10.  When the list of current neighbours is empty, one \<^verbatim>\<open>/pose_graph\<close> message
  from any robot ends the wait and sets the optimizer state to \<open>OPTIMIZATION\<close>: the check
  that all sub-graphs were received holds over the empty list.
\<close>

theorem C10_no_neighbors_single_message:
  assumes "current_neighbors_ids st = []"
  shows "optimizer_state (pose_graph_callback st msg) = OPTIMIZATION
    \<and> \<not> is_waiting (pose_graph_callback st msg)"
proof -
  let ?st1 = "st\<lparr> other_robots_graph_and_estimates :=
                      map_insert (other_robots_graph_and_estimates st) (msg_robot_id msg)
                        (msg_edges msg, msg_values msg),
                    received_pose_graphs :=
                      (received_pose_graphs st)(msg_robot_id msg \<mapsto> True),
                    received_pose_graphs_connectivity :=
                      map_insert (received_pose_graphs_connectivity st) (msg_robot_id msg)
                        (msg_connected_robots msg) \<rparr>"
  from assms have "current_neighbors_ids ?st1 = []" by simp
  then have "check_received_pose_graphs ?st1 = (True, ?st1)"
    by (rule check_received_no_neighbors)
  then show ?thesis
    by (simp add: pose_graph_callback_def Let_def end_waiting_def)
qed

theorem C10_no_neighbors_single_message_witness:
  "current_neighbors_ids waiting_fresh = []
   \<and> is_waiting waiting_fresh
   \<and> optimizer_state (pose_graph_callback waiting_fresh
        \<lparr>msg_robot_id = 1, msg_values = [], msg_edges = [], msg_connected_robots = []\<rparr>)
       = OPTIMIZATION
   \<and> \<not> is_waiting (pose_graph_callback waiting_fresh
        \<lparr>msg_robot_id = 1, msg_values = [], msg_edges = [], msg_connected_robots = []\<rparr>)"
proof -
  have n: "current_neighbors_ids waiting_fresh = []" "is_waiting waiting_fresh"
    by (simp_all add: waiting_fresh_def optimization_callback_def PoseGraphManager_def
        start_waiting_def reinitialize_received_pose_graphs_def)
  from C10_no_neighbors_single_message [OF n(1)] n show ?thesis by blast
qed

section \<open>Ingesting odometry\<close>

lemma ucast_keyframe_id_eq:
  "(ucast (a :: 32 word) :: 64 word) = ucast (b :: 32 word) \<longleftrightarrow> a = b"
proof
  assume eq: "(ucast a :: 64 word) = ucast b"
  have "uint (ucast a :: 64 word) = uint a" "uint (ucast b :: 64 word) = uint b"
    by (simp_all add: uint_up_ucast is_up)
  with eq have "uint a = uint b" by simp
  then show "a = b" by (simp add: word_uint_eq_iff)
qed simp

lemma keyframe_symbol_eq:
  "keyframe_symbol env rid a = keyframe_symbol env rid b \<longleftrightarrow> keyframe_id a = keyframe_id b"
  by (simp add: keyframe_symbol_def ucast_keyframe_id_eq)

lemma keyframe_symbol_not_default:
  "GRAPH_LABEL env \<noteq> 0 \<Longrightarrow> keyframe_symbol env rid a \<noteq> default_symbol"
  by (auto simp: keyframe_symbol_def default_symbol_def)

lemma odometry_callback_fresh:
  assumes "map_of (current_pose_estimates st) (keyframe_symbol env (robot_id st) msg) = None"
  shows "odometry_callback env st msg =
     Inr (st\<lparr> current_pose_estimates :=
                current_pose_estimates st @ [(keyframe_symbol env (robot_id st) msg, odom msg)],
              pose_graph :=
                (if latest_local_symbol st \<noteq> default_symbol
                 then pose_graph st @
                   [Between (BetweenFactor (latest_local_symbol st)
                      (keyframe_symbol env (robot_id st) msg)
                      (odom msg * inverse (latest_local_pose st)) (default_noise_model st))]
                 else pose_graph st),
              latest_local_pose := odom msg,
              latest_local_symbol := keyframe_symbol env (robot_id st) msg \<rparr>)"
  using assms
  by (simp add: odometry_callback_def Let_def values_insert_def keyframe_symbol_def)

lemma odometry_callbacks_after_first:
  assumes "latest_local_symbol st = keyframe_symbol env (robot_id st) e0"
    and "latest_local_pose st = odom e0"
    and "GRAPH_LABEL env \<noteq> 0"
    and "distinct (map keyframe_id evs)"
    and "\<forall>e \<in> set evs. map_of (current_pose_estimates st) (keyframe_symbol env (robot_id st) e) = None"
  shows "\<exists>st'. odometry_callbacks env st evs = Inr st'
     \<and> pose_graph st' = pose_graph st @
          map (\<lambda>(a, b). odometry_factor env (robot_id st) (default_noise_model st) a b)
            (zip (e0 # evs) evs)
     \<and> current_pose_estimates st' = current_pose_estimates st @
          map (\<lambda>e. (keyframe_symbol env (robot_id st) e, odom e)) evs"
  using assms
proof (induction evs arbitrary: st e0)
  case Nil
  then show ?case by simp
next
  case (Cons e evs)
  let ?sym = "keyframe_symbol env (robot_id st)"
  let ?st1 = "st\<lparr> current_pose_estimates := current_pose_estimates st @ [(?sym e, odom e)],
              pose_graph := pose_graph st @
                   [odometry_factor env (robot_id st) (default_noise_model st) e0 e],
              latest_local_pose := odom e,
              latest_local_symbol := ?sym e \<rparr>"
  from Cons.prems have fresh: "map_of (current_pose_estimates st) (?sym e) = None" by simp
  have nd: "latest_local_symbol st \<noteq> default_symbol"
    using Cons.prems(1,3) by (simp add: keyframe_symbol_not_default)
  have step: "odometry_callback env st e = Inr ?st1"
    using odometry_callback_fresh [OF fresh] nd Cons.prems(1,2)
    by (simp add: odometry_factor_def)
  have "\<exists>st'. odometry_callbacks env ?st1 evs = Inr st'
     \<and> pose_graph st' = pose_graph ?st1 @
          map (\<lambda>(a, b). odometry_factor env (robot_id ?st1) (default_noise_model ?st1) a b)
            (zip (e # evs) evs)
     \<and> current_pose_estimates st' = current_pose_estimates ?st1 @
          map (\<lambda>e. (keyframe_symbol env (robot_id ?st1) e, odom e)) evs"
  proof (rule Cons.IH)
    show "latest_local_symbol ?st1 = keyframe_symbol env (robot_id ?st1) e" by simp
    show "latest_local_pose ?st1 = odom e" by simp
    show "GRAPH_LABEL env \<noteq> 0" by fact
    show "distinct (map keyframe_id evs)" using Cons.prems(4) by simp
    show "\<forall>e'\<in>set evs. map_of (current_pose_estimates ?st1)
        (keyframe_symbol env (robot_id ?st1) e') = None"
    proof
      fix e' assume e': "e' \<in> set evs"
      with Cons.prems(4) have "keyframe_id e' \<noteq> keyframe_id e" by (auto simp: image_iff)
      then have "?sym e' \<noteq> ?sym e" by (simp add: keyframe_symbol_eq)
      moreover from e' Cons.prems(5) have "map_of (current_pose_estimates st) (?sym e') = None"
        by simp
      ultimately show "map_of (current_pose_estimates ?st1)
          (keyframe_symbol env (robot_id ?st1) e') = None"
        by (simp add: map_add_def map_of_append)
    qed
  qed
  then show ?case using step by auto
qed

text \<open>
  Claim C6.  Starting from the constructed manager, a non-empty sequence of keyframe
  events with pairwise different ids (as a strictly increasing sequence has) is ingested
  without error; afterwards the graph has one factor fewer than there are estimates, one
  estimate for each event, and the \<open>k\<close>-th appended factor joins the symbols of the
  keyframes \<open>k - 1\<close> and \<open>k\<close> with the measurement \<open>pose k * inverse (pose (k - 1))\<close>.  The
  macro \<open>GRAPH_LABEL\<close> is taken to be a character other than NUL, so that no keyframe
  symbol is the default symbol that stands for "no keyframe yet".
\<close>

theorem C6_odometry_chain:
  assumes "evs \<noteq> []" and "distinct (map keyframe_id evs)" and "GRAPH_LABEL env \<noteq> 0"
  shows "\<exists>st'. odometry_callbacks env (PoseGraphManager nb rid w nm) evs = Inr st'
     \<and> length (pose_graph st') = length (current_pose_estimates st') - 1
     \<and> length (current_pose_estimates st') = length evs
     \<and> (\<forall>k. 1 \<le> k \<and> k < length evs \<longrightarrow>
           pose_graph st' ! (k - 1) = odometry_factor env rid nm (evs ! (k - 1)) (evs ! k))"
proof -
  from assms(1) obtain e0 rest where evs: "evs = e0 # rest" by (cases evs) auto
  let ?st0 = "PoseGraphManager nb rid w nm :: ('a, 'b) manager"
  let ?st1 = "?st0\<lparr> current_pose_estimates := [(keyframe_symbol env rid e0, odom e0)],
                   pose_graph := [],
                   latest_local_pose := odom e0,
                   latest_local_symbol := keyframe_symbol env rid e0 \<rparr>"
  have first: "odometry_callback env ?st0 e0 = Inr ?st1"
    using odometry_callback_fresh [of ?st0 env e0] by (simp add: PoseGraphManager_def)
  have "\<exists>st'. odometry_callbacks env ?st1 rest = Inr st'
     \<and> pose_graph st' = pose_graph ?st1 @
          map (\<lambda>(a, b). odometry_factor env (robot_id ?st1) (default_noise_model ?st1) a b)
            (zip (e0 # rest) rest)
     \<and> current_pose_estimates st' = current_pose_estimates ?st1 @
          map (\<lambda>e. (keyframe_symbol env (robot_id ?st1) e, odom e)) rest"
  proof (rule odometry_callbacks_after_first)
    show "latest_local_symbol ?st1 = keyframe_symbol env (robot_id ?st1) e0"
      by (simp add: PoseGraphManager_def)
    show "latest_local_pose ?st1 = odom e0" by simp
    show "GRAPH_LABEL env \<noteq> 0" by fact
    show "distinct (map keyframe_id rest)" using assms(2) evs by simp
    show "\<forall>e\<in>set rest. map_of (current_pose_estimates ?st1)
        (keyframe_symbol env (robot_id ?st1) e) = None"
      using assms(2) evs by (auto simp: PoseGraphManager_def keyframe_symbol_eq image_iff)
  qed
  then obtain st' where run: "odometry_callbacks env ?st1 rest = Inr st'"
    and pg: "pose_graph st' = map (\<lambda>(a, b). odometry_factor env rid nm a b) (zip (e0 # rest) rest)"
    and est: "current_pose_estimates st' = (keyframe_symbol env rid e0, odom e0) #
          map (\<lambda>e. (keyframe_symbol env rid e, odom e)) rest"
    by (auto simp: PoseGraphManager_def)
  have "odometry_callbacks env ?st0 evs = Inr st'" using first run evs by simp
  moreover have "length (pose_graph st') = length (current_pose_estimates st') - 1"
    using pg est by simp
  moreover have "length (current_pose_estimates st') = length evs" using est evs by simp
  moreover have "\<forall>k. 1 \<le> k \<and> k < length evs \<longrightarrow>
           pose_graph st' ! (k - 1) = odometry_factor env rid nm (evs ! (k - 1)) (evs ! k)"
  proof (intro allI impI)
    fix k assume k: "1 \<le> k \<and> k < length evs"
    then obtain j where j: "k = Suc j" by (cases k) auto
    with k evs have "j < length rest" by simp
    then show "pose_graph st' ! (k - 1) = odometry_factor env rid nm (evs ! (k - 1)) (evs ! k)"
      using pg evs j by (simp add: nth_Cons')
  qed
  ultimately show ?thesis by blast
qed

theorem C6_odometry_chain_witness:
  "[\<lparr>keyframe_id = 0, odom = 1\<rparr>, \<lparr>keyframe_id = 1, odom = 2\<rparr>, \<lparr>keyframe_id = 2, odom = 4\<rparr>] \<noteq> []
   \<and> distinct (map keyframe_id
        [\<lparr>keyframe_id = 0, odom = 1 :: real\<rparr>, \<lparr>keyframe_id = 1, odom = 2\<rparr>,
         \<lparr>keyframe_id = 2, odom = 4\<rparr>])
   \<and> GRAPH_LABEL example_env \<noteq> 0
   \<and> (\<exists>st'. odometry_callbacks example_env (PoseGraphManager 3 0 60 ())
          [\<lparr>keyframe_id = 0, odom = 1\<rparr>, \<lparr>keyframe_id = 1, odom = 2\<rparr>,
           \<lparr>keyframe_id = 2, odom = 4\<rparr>] = Inr st'
        \<and> length (pose_graph st') = length (current_pose_estimates st') - 1
        \<and> length (current_pose_estimates st') = 3
        \<and> pose_graph st' ! 0 = odometry_factor example_env 0 ()
             \<lparr>keyframe_id = 0, odom = 1\<rparr> \<lparr>keyframe_id = 1, odom = 2\<rparr>
        \<and> pose_graph st' ! 1 = odometry_factor example_env 0 ()
             \<lparr>keyframe_id = 1, odom = 2\<rparr> \<lparr>keyframe_id = 2, odom = 4\<rparr>)"
proof -
  let ?evs = "[\<lparr>keyframe_id = 0, odom = 1 :: real\<rparr>, \<lparr>keyframe_id = 1, odom = 2\<rparr>,
         \<lparr>keyframe_id = 2, odom = 4\<rparr>]"
  have h: "?evs \<noteq> []" "distinct (map keyframe_id ?evs)" "GRAPH_LABEL example_env \<noteq> 0"
    by (simp_all add: example_env_def)
  from C6_odometry_chain [OF h, of 3 0 60 "()"] obtain st' where
    st': "odometry_callbacks example_env (PoseGraphManager 3 0 60 ()) ?evs = Inr st'"
      "length (pose_graph st') = length (current_pose_estimates st') - 1"
      "length (current_pose_estimates st') = length ?evs"
      "\<forall>k. 1 \<le> k \<and> k < length ?evs \<longrightarrow>
           pose_graph st' ! (k - 1) = odometry_factor example_env 0 () (?evs ! (k - 1)) (?evs ! k)"
    by blast
  from st'(4) [rule_format, of 1] st'(4) [rule_format, of 2]
  have "pose_graph st' ! 0 = odometry_factor example_env 0 ()
             \<lparr>keyframe_id = 0, odom = 1\<rparr> \<lparr>keyframe_id = 1, odom = 2\<rparr>"
    "pose_graph st' ! 1 = odometry_factor example_env 0 ()
             \<lparr>keyframe_id = 1, odom = 2\<rparr> \<lparr>keyframe_id = 2, odom = 4\<rparr>"
    by simp_all
  with st'(1,2,3) h show ?thesis by auto
qed

section \<open>Waiting and its timeout\<close>

lemma waiting_fresh_late_tick:
  "optimization_loop_callback example_env 61000000000 waiting_fresh =
     Inr ([OptimizerStateMsg WAITING], waiting_fresh)"
  "optimizer_state waiting_fresh = WAITING" "is_waiting waiting_fresh"
  "start_waiting_time waiting_fresh = 0" "max_waiting_time_sec waiting_fresh = 60000000000"
  by (simp_all add: waiting_fresh_def optimization_callback_def PoseGraphManager_def
      start_waiting_def reinitialize_received_pose_graphs_def optimization_loop_callback_def)

text \<open>
  Claim C7 as stated fails: a robot that has no keyframe yet enters \<open>WAITING\<close> at its
  trigger tick; the loop tick skips its whole body while \<open>current_pose_estimates\<close> is
  empty, so a loop tick 61 seconds later (the limit is 60) leaves the state at \<open>WAITING\<close>
  with \<open>is_waiting\<close> set.
\<close>

theorem C7_waiting_timeout_counterexample:
  "optimizer_state waiting_fresh = WAITING
   \<and> 61000000000 - start_waiting_time waiting_fresh > max_waiting_time_sec waiting_fresh
   \<and> (case optimization_loop_callback example_env 61000000000 waiting_fresh of
        Inl e \<Rightarrow> None
      | Inr (outs, st') \<Rightarrow> Some (optimizer_state st', is_waiting st')) = Some (WAITING, True)"
  by (simp add: waiting_fresh_late_tick)

section \<open>What the aggregator returns\<close>

lemma map_at_False_iff [simp]: "map_at False m i \<longleftrightarrow> m i = Some True"
  by (simp add: map_at_def split: option.splits)

lemma add_pairs_effect:
  "foldl (add_pair m) (g, lcs) ps = (g', lcs') \<Longrightarrow>
     (\<forall>k. map_at [] lcs' k = map_at [] lcs k)
     \<and> g' = g @ concat (map (\<lambda>p. if m (fst p) = Some True \<and> m (snd p) = Some True
            then map Between (map_at [] lcs (min (fst p) (snd p), max (fst p) (snd p)))
            else []) ps)"
proof (induction ps arbitrary: g lcs)
  case Nil
  then show ?case by simp
next
  case (Cons p ps)
  let ?k = "(min (fst p) (snd p), max (fst p) (snd p))"
  show ?case
  proof (cases "m (fst p) = Some True \<and> m (snd p) = Some True")
    case True
    then have "add_pair m (g, lcs) p = (g @ map Between (map_at [] lcs ?k), map_touch [] lcs ?k)"
      by (simp add: add_pair_def Let_def)
    with Cons.prems have "foldl (add_pair m)
        (g @ map Between (map_at [] lcs ?k), map_touch [] lcs ?k) ps = (g', lcs')" by simp
    from Cons.IH [OF this, unfolded map_at_touch] True show ?thesis by simp
  next
    case False
    then have "add_pair m (g, lcs) p = (g, lcs)"
      by (auto simp: add_pair_def Let_def)
    with Cons.prems have "foldl (add_pair m) (g, lcs) ps = (g', lcs')" by simp
    from Cons.IH [OF this] False show ?thesis by auto
  qed
qed

lemma add_received_factors_effect:
  "add_received_factors env m g fs = Inr g' \<Longrightarrow>
     (\<forall>f \<in> set fs. \<exists>b. f = Between b) \<and> g' = g @ filter (factor_connected env m) fs"
proof (induction fs arbitrary: g)
  case Nil
  then show ?case by simp
next
  case (Cons f fs)
  show ?case
  proof (cases f)
    case (Prior k p n)
    with Cons.prems show ?thesis by simp
  next
    case (Between b)
    show ?thesis
    proof (cases "factor_connected env m f")
      case True
      with Between Cons.prems
      have "add_received_factors env m (g @ [Between b]) fs = Inr g'"
        by (simp add: factor_connected_def Let_def)
      from Cons.IH [OF this] True Between show ?thesis by simp
    next
      case False
      with Between Cons.prems
      have "add_received_factors env m g fs = Inr g'"
        by (auto simp: factor_connected_def Let_def split: if_splits)
      from Cons.IH [OF this] False Between show ?thesis by simp
    qed
  qed
qed

lemma add_neighbors_factors_effect:
  "add_neighbors_factors env m others g ids = Inr g' \<Longrightarrow>
     (\<forall>n \<in> set ids. others n \<noteq> None
        \<and> (\<forall>f \<in> set (case others n of None \<Rightarrow> [] | Some ge \<Rightarrow> fst ge). \<exists>b. f = Between b))
     \<and> g' = g @ concat (map (\<lambda>n. filter (factor_connected env m)
              (case others n of None \<Rightarrow> [] | Some ge \<Rightarrow> fst ge)) ids)"
proof (induction ids arbitrary: g)
  case Nil
  then show ?case by simp
next
  case (Cons n ids)
  from Cons.prems obtain ge where ge: "others n = Some ge"
    by (cases "others n") auto
  with Cons.prems obtain g1 where
    g1: "add_received_factors env m g (fst ge) = Inr g1"
    and rest: "add_neighbors_factors env m others g1 ids = Inr g'"
    by (cases "add_received_factors env m g (fst ge)") auto
  from add_received_factors_effect [OF g1]
  have a: "\<forall>f \<in> set (fst ge). \<exists>b. f = Between b"
    and b: "g1 = g @ filter (factor_connected env m) (fst ge)" by blast+
  from Cons.IH [OF rest]
  have c: "\<forall>n \<in> set ids. others n \<noteq> None
        \<and> (\<forall>f \<in> set (case others n of None \<Rightarrow> [] | Some ge \<Rightarrow> fst ge). \<exists>b. f = Between b)"
    and d: "g' = g1 @ concat (map (\<lambda>n. filter (factor_connected env m)
              (case others n of None \<Rightarrow> [] | Some ge \<Rightarrow> fst ge)) ids)" by blast+
  have "\<forall>n' \<in> set (n # ids). others n' \<noteq> None
        \<and> (\<forall>f \<in> set (case others n' of None \<Rightarrow> [] | Some ge \<Rightarrow> fst ge). \<exists>b. f = Between b)"
  proof
    fix n' assume n': "n' \<in> set (n # ids)"
    show "others n' \<noteq> None
        \<and> (\<forall>f \<in> set (case others n' of None \<Rightarrow> [] | Some ge \<Rightarrow> fst ge). \<exists>b. f = Between b)"
    proof (cases "n' = n")
      case True
      with ge a show ?thesis by simp
    next
      case False
      with n' have "n' \<in> set ids" by simp
      with c show ?thesis by blast
    qed
  qed
  moreover from b d ge have "g' = g @ concat (map (\<lambda>n. filter (factor_connected env m)
              (case others n of None \<Rightarrow> [] | Some ge \<Rightarrow> fst ge)) (n # ids))" by simp
  ultimately show ?case by blast
qed

lemma values_insert_all_effect:
  "values_insert_all vals new = Inr vals' \<Longrightarrow>
     vals' = vals @ new \<and> fst ` set new \<inter> fst ` set vals = {}"
proof (induction new arbitrary: vals)
  case Nil
  then show ?case by simp
next
  case (Cons kv new)
  obtain k v where kv: "kv = (k, v)" by (cases kv) auto
  from Cons.prems kv have fresh: "map_of vals k = None"
    by (auto simp: values_insert_def split: option.splits)
  with Cons.prems kv have "values_insert_all (vals @ [(k, v)]) new = Inr vals'"
    by (simp add: values_insert_def)
  from Cons.IH [OF this] fresh kv show ?case
    by (auto simp: map_of_eq_None_iff)
qed

lemma insert_neighbors_estimates_effect:
  "insert_neighbors_estimates m others est ids = Inr est' \<Longrightarrow>
     est' = est @ concat (map (\<lambda>n. if m n = Some True
              then (case others n of None \<Rightarrow> [] | Some ge \<Rightarrow> snd ge) else []) ids)
     \<and> (\<forall>n \<in> set ids. m n = Some True \<longrightarrow> others n \<noteq> None
           \<and> fst ` set (case others n of None \<Rightarrow> [] | Some ge \<Rightarrow> snd ge) \<inter> fst ` set est = {})"
proof (induction ids arbitrary: est)
  case Nil
  then show ?case by simp
next
  case (Cons n ids)
  let ?vals = "\<lambda>n. case others n of None \<Rightarrow> [] | Some ge \<Rightarrow> snd ge"
  show ?case
  proof (cases "m n = Some True")
    case False
    with Cons.prems have "insert_neighbors_estimates m others est ids = Inr est'" by simp
    from Cons.IH [OF this] False show ?thesis by simp
  next
    case True
    with Cons.prems obtain ge where ge: "others n = Some ge"
      by (cases "others n") auto
    with True Cons.prems obtain est1 where
      e1: "values_insert_all est (snd ge) = Inr est1"
      and rest: "insert_neighbors_estimates m others est1 ids = Inr est'"
      by (cases "values_insert_all est (snd ge)") auto
    from values_insert_all_effect [OF e1]
    have est1: "est1 = est @ snd ge" and dj: "fst ` set (snd ge) \<inter> fst ` set est = {}"
      by blast+
    from Cons.IH [OF rest] have
      a: "est' = est1 @ concat (map (\<lambda>n. if m n = Some True then ?vals n else []) ids)"
      and b: "\<forall>n \<in> set ids. m n = Some True \<longrightarrow> others n \<noteq> None
           \<and> fst ` set (?vals n) \<inter> fst ` set est1 = {}" by blast+
    have sub: "fst ` set est \<subseteq> fst ` set est1" by (simp add: est1 image_Un)
    have "\<forall>n' \<in> set (n # ids). m n' = Some True \<longrightarrow> others n' \<noteq> None
           \<and> fst ` set (?vals n') \<inter> fst ` set est = {}"
    proof
      fix n' assume n': "n' \<in> set (n # ids)"
      show "m n' = Some True \<longrightarrow> others n' \<noteq> None
           \<and> fst ` set (?vals n') \<inter> fst ` set est = {}"
      proof (cases "n' = n")
        case True
        with ge dj show ?thesis by simp
      next
        case False
        with n' have "n' \<in> set ids" by simp
        with b sub show ?thesis by blast
      qed
    qed
    moreover have "est' = est @ concat (map (\<lambda>n. if m n = Some True then ?vals n else [])
        (n # ids))"
      using a est1 ge True by simp
    ultimately show ?thesis by blast
  qed
qed

lemma aggregate_pose_graphs_result:
  assumes "aggregate_pose_graphs env st = Inr ((graph, estimates), st')"
  shows "\<exists>m st1. connected_robot_pose_graph st = Inr (m, st1)
     \<and> graph = pose_graph st @ own_closures st m @
         concat (map (\<lambda>n. filter (factor_connected env m) (received_graph st n))
           (current_neighbors_ids st))
     \<and> (\<forall>n \<in> set (current_neighbors_ids st). \<forall>f \<in> set (received_graph st n). \<exists>b. f = Between b)
     \<and> estimates = current_pose_estimates st @
         concat (map (\<lambda>n. if m n = Some True then received_values st n else [])
           (current_neighbors_ids st))
     \<and> (\<forall>n \<in> set (current_neighbors_ids st). m n = Some True \<longrightarrow>
           fst ` set (received_values st n) \<inter> fst ` set (current_pose_estimates st) = {})"
proof -
  from assms obtain m st1 where conn: "connected_robot_pose_graph st = Inr (m, st1)"
    by (cases "connected_robot_pose_graph st") (auto simp: aggregate_pose_graphs_def)
  from connected_robot_pose_graph_sound [OF conn] obtain c' where
    st1: "st1 = st\<lparr>received_pose_graphs_connectivity := c'\<rparr>" by blast
  obtain g1 lcs1 where pairs: "foldl (add_pair m)
      (pose_graph st, inter_robot_loop_closures st)
      (index_pairs (current_neighbors_ids st @ [robot_id st])) = (g1, lcs1)"
    by (metis surj_pair)
  from assms conn st1 pairs obtain e0 where
    e0: "values_insert_all [] (current_pose_estimates st) = Inr e0"
    by (cases "values_insert_all [] (current_pose_estimates st)")
      (auto simp: aggregate_pose_graphs_def Let_def)
  from assms conn st1 pairs e0 obtain e1 where
    e1: "insert_neighbors_estimates m (other_robots_graph_and_estimates st) e0
           (current_neighbors_ids st) = Inr e1"
    by (cases "insert_neighbors_estimates m (other_robots_graph_and_estimates st) e0
           (current_neighbors_ids st)")
      (auto simp: aggregate_pose_graphs_def Let_def)
  from assms conn st1 pairs e0 e1 obtain g2 where
    g2: "add_neighbors_factors env m (other_robots_graph_and_estimates st) g1
           (current_neighbors_ids st) = Inr g2"
    by (cases "add_neighbors_factors env m (other_robots_graph_and_estimates st) g1
           (current_neighbors_ids st)")
      (auto simp: aggregate_pose_graphs_def Let_def)
  from assms conn st1 pairs e0 e1 g2 have res: "graph = g2" "estimates = e1"
    by (auto simp: aggregate_pose_graphs_def Let_def)
  from add_pairs_effect [OF pairs] have g1: "g1 = pose_graph st @ own_closures st m"
    unfolding own_closures_def closures_of_def by blast
  from values_insert_all_effect [OF e0] have e0': "e0 = current_pose_estimates st" by simp
  note nf = add_neighbors_factors_effect [OF g2]
  note ne = insert_neighbors_estimates_effect [OF e1]
  have "graph = pose_graph st @ own_closures st m @
         concat (map (\<lambda>n. filter (factor_connected env m) (received_graph st n))
           (current_neighbors_ids st))"
    using nf res unfolding g1 received_graph_def by simp
  moreover have "\<forall>n \<in> set (current_neighbors_ids st). \<forall>f \<in> set (received_graph st n).
      \<exists>b. f = Between b"
    using nf unfolding received_graph_def by blast
  moreover have "estimates = current_pose_estimates st @
         concat (map (\<lambda>n. if m n = Some True then received_values st n else [])
           (current_neighbors_ids st))"
    using ne res unfolding e0' received_values_def by blast
  moreover have "\<forall>n \<in> set (current_neighbors_ids st). m n = Some True \<longrightarrow>
           fst ` set (received_values st n) \<inter> fst ` set (current_pose_estimates st) = {}"
    using ne unfolding e0' received_values_def by blast
  ultimately show ?thesis using conn by blast
qed

lemma values_insert_all_total:
  "distinct (map fst (vals @ new)) \<Longrightarrow> values_insert_all vals new = Inr (vals @ new)"
proof (induction new arbitrary: vals)
  case Nil
  then show ?case by simp
next
  case (Cons kv new)
  obtain k v where kv: "kv = (k, v)" by (cases kv) auto
  from Cons.prems kv have fresh: "map_of vals k = None"
    by (auto simp: map_of_eq_None_iff)
  from Cons.prems kv have "distinct (map fst ((vals @ [(k, v)]) @ new))" by auto
  from Cons.IH [OF this] fresh kv show ?case by (simp add: values_insert_def)
qed

lemma distinct_keys_prefix: "distinct (map fst (xs @ ys)) \<Longrightarrow> distinct (map fst xs)"
  by simp

lemma insert_neighbors_estimates_total:
  assumes "\<forall>n \<in> set ids. m n = Some True \<longrightarrow> others n \<noteq> None"
    and "distinct (map fst (est @ concat (map (\<lambda>n. if m n = Some True
              then (case others n of None \<Rightarrow> [] | Some ge \<Rightarrow> snd ge) else []) ids)))"
  shows "insert_neighbors_estimates m others est ids =
     Inr (est @ concat (map (\<lambda>n. if m n = Some True
              then (case others n of None \<Rightarrow> [] | Some ge \<Rightarrow> snd ge) else []) ids))"
  using assms
proof (induction ids arbitrary: est)
  case Nil
  then show ?case by simp
next
  case (Cons n ids)
  let ?vals = "\<lambda>n. if m n = Some True
              then (case others n of None \<Rightarrow> [] | Some ge \<Rightarrow> snd ge) else []"
  show ?case
  proof (cases "m n = Some True")
    case False
    with Cons.prems have "distinct (map fst (est @ concat (map ?vals ids)))" by simp
    from Cons.IH [OF _ this] Cons.prems(1) False show ?thesis by simp
  next
    case True
    with Cons.prems(1) obtain ge where ge: "others n = Some ge" by auto
    from Cons.prems(2) True ge
    have d: "distinct (map fst ((est @ snd ge) @ concat (map ?vals ids)))" by simp
    then have "distinct (map fst (est @ snd ge))" by (rule distinct_keys_prefix)
    then have ins: "values_insert_all est (snd ge) = Inr (est @ snd ge)"
      by (rule values_insert_all_total)
    from Cons.IH [OF _ d] Cons.prems(1) ins True ge show ?thesis by simp
  qed
qed

lemma add_received_factors_total:
  "\<forall>f \<in> set fs. \<exists>b. f = Between b \<Longrightarrow>
     add_received_factors env m g fs = Inr (g @ filter (factor_connected env m) fs)"
proof (induction fs arbitrary: g)
  case Nil
  then show ?case by simp
next
  case (Cons f fs)
  then obtain b where b: "f = Between b" by auto
  from Cons.prems have rest: "\<forall>f \<in> set fs. \<exists>b. f = Between b" by simp
  show ?case
  proof (cases "factor_connected env m f")
    case True
    with b Cons.IH [OF rest, of "g @ [Between b]"] show ?thesis
      by (simp add: factor_connected_def Let_def)
  next
    case False
    with b Cons.IH [OF rest, of g] show ?thesis
      by (auto simp: factor_connected_def Let_def)
  qed
qed

lemma add_neighbors_factors_total:
  assumes "\<forall>n \<in> set ids. others n \<noteq> None
        \<and> (\<forall>f \<in> set (case others n of None \<Rightarrow> [] | Some ge \<Rightarrow> fst ge). \<exists>b. f = Between b)"
  shows "add_neighbors_factors env m others g ids =
     Inr (g @ concat (map (\<lambda>n. filter (factor_connected env m)
              (case others n of None \<Rightarrow> [] | Some ge \<Rightarrow> fst ge)) ids))"
  using assms
proof (induction ids arbitrary: g)
  case Nil
  then show ?case by simp
next
  case (Cons n ids)
  have "n \<in> set (n # ids)" by simp
  with Cons.prems have here: "others n \<noteq> None
        \<and> (\<forall>f \<in> set (case others n of None \<Rightarrow> [] | Some ge \<Rightarrow> fst ge). \<exists>b. f = Between b)"
    by (rule bspec)
  then obtain ge where ge: "others n = Some ge" by auto
  with here have "\<forall>f \<in> set (fst ge). \<exists>b. f = Between b" by simp
  then have step: "add_received_factors env m g (fst ge) =
      Inr (g @ filter (factor_connected env m) (fst ge))"
    by (rule add_received_factors_total)
  have "\<forall>n \<in> set ids. others n \<noteq> None
        \<and> (\<forall>f \<in> set (case others n of None \<Rightarrow> [] | Some ge \<Rightarrow> fst ge). \<exists>b. f = Between b)"
  proof
    fix n' assume "n' \<in> set ids"
    then have "n' \<in> set (n # ids)" by simp
    with Cons.prems show "others n' \<noteq> None
        \<and> (\<forall>f \<in> set (case others n' of None \<Rightarrow> [] | Some ge \<Rightarrow> fst ge). \<exists>b. f = Between b)"
      by (rule bspec)
  qed
  from Cons.IH [OF this] step ge show ?case by simp
qed

lemma aggregate_pose_graphs_total:
  assumes conn: "connected_robot_pose_graph st = Inr (m, st1)"
    and delivered: "\<forall>n \<in> set (current_neighbors_ids st).
          other_robots_graph_and_estimates st n \<noteq> None"
    and between: "\<forall>n \<in> set (current_neighbors_ids st). \<forall>f \<in> set (received_graph st n).
          \<exists>b. f = Between b"
    and keys: "distinct (map fst (joint_values st m))"
  shows "\<exists>st'. aggregate_pose_graphs env st = Inr ((joint_factors env st m, joint_values st m), st')"
proof -
  from connected_robot_pose_graph_sound [OF conn] obtain c' where
    st1: "st1 = st\<lparr>received_pose_graphs_connectivity := c'\<rparr>" by blast
  obtain g1 lcs1 where pairs: "foldl (add_pair m)
      (pose_graph st, inter_robot_loop_closures st)
      (index_pairs (current_neighbors_ids st @ [robot_id st])) = (g1, lcs1)"
    by (metis surj_pair)
  from add_pairs_effect [OF pairs] have g1: "g1 = pose_graph st @ own_closures st m"
    unfolding own_closures_def closures_of_def by blast
  from keys have "distinct (map fst ([] @ current_pose_estimates st))"
    by (simp add: joint_values_def)
  then have e0: "values_insert_all [] (current_pose_estimates st) = Inr (current_pose_estimates st)"
    using values_insert_all_total [of "[]" "current_pose_estimates st"] by simp
  have a: "\<forall>n \<in> set (current_neighbors_ids st). m n = Some True \<longrightarrow>
      other_robots_graph_and_estimates st n \<noteq> None"
    using delivered by blast
  have b: "distinct (map fst (current_pose_estimates st @
      concat (map (\<lambda>n. if m n = Some True
          then (case other_robots_graph_and_estimates st n of None \<Rightarrow> [] | Some ge \<Rightarrow> snd ge)
          else []) (current_neighbors_ids st))))"
    using keys unfolding joint_values_def received_values_def .
  have e1: "insert_neighbors_estimates m (other_robots_graph_and_estimates st)
      (current_pose_estimates st) (current_neighbors_ids st) = Inr (joint_values st m)"
    using insert_neighbors_estimates_total [OF a b]
    unfolding joint_values_def received_values_def .
  have c: "\<forall>n \<in> set (current_neighbors_ids st). other_robots_graph_and_estimates st n \<noteq> None
      \<and> (\<forall>f \<in> set (case other_robots_graph_and_estimates st n of
                        None \<Rightarrow> [] | Some ge \<Rightarrow> fst ge). \<exists>b. f = Between b)"
    using delivered between unfolding received_graph_def by blast
  have g2: "add_neighbors_factors env m (other_robots_graph_and_estimates st) g1
      (current_neighbors_ids st) = Inr (joint_factors env st m)"
    using add_neighbors_factors_total [OF c, of env m g1]
    unfolding joint_factors_def received_graph_def g1 .
  show ?thesis
    using conn st1 pairs e0 e1 g2 by (simp add: aggregate_pose_graphs_def Let_def)
qed


section \<open>The invariants of the local graph and of the closure store\<close>

lemma same_graphs_refl [simp]: "same_graphs st st"
  by (simp add: same_graphs_def)

lemma same_graphs_trans: "same_graphs a b \<Longrightarrow> same_graphs b c \<Longrightarrow> same_graphs a c"
  by (simp add: same_graphs_def)

lemma same_graphs_invs:
  assumes "same_graphs st st'"
  shows "local_graph_inv env st' = local_graph_inv env st"
    and "closure_store_inv env st' = closure_store_inv env st"
  using assms by (simp_all add: same_graphs_def local_graph_inv_def closure_store_inv_def)

lemma check_received_pose_graphs_same: "same_graphs st (snd (check_received_pose_graphs st))"
  by (simp add: check_received_pose_graphs_def same_graphs_def split: prod.splits)

lemma current_neighbors_callback_same: "same_graphs st (current_neighbors_callback st ids)"
  by (simp add: current_neighbors_callback_def end_waiting_def same_graphs_def)

lemma pose_graph_callback_same: "same_graphs st (pose_graph_callback st pg)"
proof -
  let ?st1 = "st\<lparr> other_robots_graph_and_estimates :=
                      map_insert (other_robots_graph_and_estimates st) (msg_robot_id pg)
                        (msg_edges pg, msg_values pg),
                    received_pose_graphs :=
                      (received_pose_graphs st)(msg_robot_id pg \<mapsto> True),
                    received_pose_graphs_connectivity :=
                      map_insert (received_pose_graphs_connectivity st) (msg_robot_id pg)
                        (msg_connected_robots pg) \<rparr>"
  have a: "same_graphs st ?st1" by (simp add: same_graphs_def)
  have b: "same_graphs ?st1 (snd (check_received_pose_graphs ?st1))"
    by (rule check_received_pose_graphs_same)
  obtain r st2 where c: "check_received_pose_graphs ?st1 = (r, st2)" by (metis surj_pair)
  with b have "same_graphs ?st1 st2" by simp
  with a have "same_graphs st st2" by (rule same_graphs_trans)
  then have "same_graphs st ((end_waiting st2)\<lparr>optimizer_state := OPTIMIZATION\<rparr>)"
    by (simp add: same_graphs_def end_waiting_def)
  with \<open>same_graphs st st2\<close> c show ?thesis
    by (simp add: pose_graph_callback_def Let_def)
qed

lemma get_pose_graph_callback_same: "same_graphs st (snd (get_pose_graph_callback st ids))"
proof -
  obtain g cr lcs where run:
    "foldl (serve_pair (robot_id st)) (pose_graph st, [], inter_robot_loop_closures st)
       (index_pairs ids) = (g, cr, lcs)"
    by (metis surj_pair)
  from serve_pairs_effect [OF run]
  have "\<forall>k. map_at [] lcs k = map_at [] (inter_robot_loop_closures st) k" by blast
  with run show ?thesis by (simp add: get_pose_graph_callback_def same_graphs_def)
qed

lemma optimization_callback_same: "same_graphs st (snd (optimization_callback now st))"
  by (simp add: optimization_callback_def start_waiting_def
      reinitialize_received_pose_graphs_def same_graphs_def)

lemma aggregate_pose_graphs_same:
  assumes "aggregate_pose_graphs env st = Inr (r, st')"
  shows "same_graphs st st'"
proof -
  from assms obtain m st1 where conn: "connected_robot_pose_graph st = Inr (m, st1)"
    by (cases "connected_robot_pose_graph st") (auto simp: aggregate_pose_graphs_def)
  from connected_robot_pose_graph_sound [OF conn] obtain c' where
    st1: "st1 = st\<lparr>received_pose_graphs_connectivity := c'\<rparr>" by blast
  obtain g1 lcs1 where pairs: "foldl (add_pair m)
      (pose_graph st, inter_robot_loop_closures st)
      (index_pairs (current_neighbors_ids st @ [robot_id st])) = (g1, lcs1)"
    by (metis surj_pair)
  from assms conn st1 pairs have "st' = st1\<lparr>inter_robot_loop_closures := lcs1\<rparr>"
    by (auto simp: aggregate_pose_graphs_def Let_def split: sum.splits)
  with st1 add_pairs_effect [OF pairs] show ?thesis by (simp add: same_graphs_def)
qed

lemma perform_optimization_same:
  assumes "perform_optimization env st = Inr (outs, st')"
  shows "same_graphs st st'"
proof -
  from assms obtain ge where "aggregate_pose_graphs env st = Inr (ge, st')"
    by (auto simp: perform_optimization_def Let_def split: sum.splits)
  then show ?thesis by (rule aggregate_pose_graphs_same)
qed

lemma optimization_loop_callback_same:
  assumes "optimization_loop_callback env now st = Inr (outs, st')"
  shows "same_graphs st st'"
proof (cases "current_pose_estimates st \<noteq> [] \<and> optimizer_state st = OPTIMIZATION")
  case True
  with assms obtain results st1 where po: "perform_optimization env st = Inr (results, st1)"
    and st': "st' = st1\<lparr>optimizer_state := IDLE\<rparr>"
    by (auto simp: optimization_loop_callback_def split: sum.splits)
  from perform_optimization_same [OF po] st' show ?thesis by (simp add: same_graphs_def)
next
  case False
  with assms show ?thesis
    by (auto simp: optimization_loop_callback_def check_waiting_timeout_def start_waiting_def
        end_waiting_def same_graphs_def Let_def split: sum.splits if_splits)
qed

lemma constructed_invs:
  "local_graph_inv env (PoseGraphManager nb rid w nm)"
  "closure_store_inv env (PoseGraphManager nb rid w nm)"
  by (auto simp: local_graph_inv_def closure_store_inv_def PoseGraphManager_def map_at_def)

lemma odometry_callback_invs:
  assumes "ROBOT_ID env (ROBOT_LABEL env (robot_id st)) = robot_id st"
    and "local_graph_inv env st" and "odometry_callback env st msg = Inr st'"
  shows "local_graph_inv env st' \<and> robot_id st' = robot_id st
    \<and> inter_robot_loop_closures st' = inter_robot_loop_closures st"
  using assms
  by (auto simp: odometry_callback_def local_graph_inv_def Let_def split: sum.splits if_splits)

lemma map_at_upd: "map_at d (m(k \<mapsto> v)) k' = (if k' = k then v else map_at d m k')"
  by (simp add: map_at_def)

lemma inter_robot_loop_closure_callback_store:
  assumes "success msg"
  shows "map_at [] (inter_robot_loop_closures (inter_robot_loop_closure_callback env st msg)) k =
     (if k = (min (robot0_id msg) (robot1_id msg), max (robot0_id msg) (robot1_id msg))
      then map_at [] (inter_robot_loop_closures st) k @
        [BetweenFactor
           (LabeledSymbol (GRAPH_LABEL env) (ROBOT_LABEL env (robot0_id msg))
              (ucast (robot0_image_id msg)))
           (LabeledSymbol (GRAPH_LABEL env) (ROBOT_LABEL env (robot1_id msg))
              (ucast (robot1_image_id msg)))
           (transform msg) (default_noise_model st)]
      else map_at [] (inter_robot_loop_closures st) k)"
  using assms by (simp add: inter_robot_loop_closure_callback_def Let_def map_at_upd)

lemma inter_robot_loop_closure_callback_invs:
  assumes "ROBOT_ID env (ROBOT_LABEL env (robot0_id msg)) = robot0_id msg"
    and "ROBOT_ID env (ROBOT_LABEL env (robot1_id msg)) = robot1_id msg"
    and "closure_store_inv env st"
  shows "closure_store_inv env (inter_robot_loop_closure_callback env st msg)"
proof (cases "success msg")
  case False
  with assms(3) show ?thesis by (simp add: inter_robot_loop_closure_callback_def)
next
  case True
  let ?k = "(min (robot0_id msg) (robot1_id msg), max (robot0_id msg) (robot1_id msg))"
  have k: "{robot0_id msg, robot1_id msg} = {fst ?k, snd ?k}"
    by (auto simp: min_def max_def)
  note store = inter_robot_loop_closure_callback_store [OF True, of env st]
  show ?thesis
    unfolding closure_store_inv_def
  proof (intro allI ballI)
    fix i j f
    assume f: "f \<in> set (map_at [] (inter_robot_loop_closures
        (inter_robot_loop_closure_callback env st msg)) (i, j))"
    show "{ROBOT_ID env (label (key1 f)), ROBOT_ID env (label (key2 f))} = {i, j}"
    proof (cases "(i, j) = ?k")
      case False
      with f have "f \<in> set (map_at [] (inter_robot_loop_closures st) (i, j))"
        unfolding store by (auto split: if_splits)
      with assms(3) show ?thesis unfolding closure_store_inv_def by blast
    next
      case eq: True
      with f consider
        (old) "f \<in> set (map_at [] (inter_robot_loop_closures st) (i, j))"
        | (new) "f = BetweenFactor
           (LabeledSymbol (GRAPH_LABEL env) (ROBOT_LABEL env (robot0_id msg))
              (ucast (robot0_image_id msg)))
           (LabeledSymbol (GRAPH_LABEL env) (ROBOT_LABEL env (robot1_id msg))
              (ucast (robot1_image_id msg)))
           (transform msg) (default_noise_model st)"
        unfolding store by (auto split: if_splits)
      then show ?thesis
      proof cases
        case old
        with assms(3) show ?thesis unfolding closure_store_inv_def by blast
      next
        case new
        with assms(1,2) have "{ROBOT_ID env (label (key1 f)), ROBOT_ID env (label (key2 f))}
            = {robot0_id msg, robot1_id msg}" by simp
        with k eq show ?thesis by simp
      qed
    qed
  qed
qed

lemma inter_robot_loop_closure_callback_local:
  "local_graph_inv env (inter_robot_loop_closure_callback env st msg) = local_graph_inv env st"
  "robot_id (inter_robot_loop_closure_callback env st msg) = robot_id st"
  by (simp_all add: inter_robot_loop_closure_callback_def local_graph_inv_def Let_def)

lemma reachable_invs:
  assumes "reachable env st"
  shows "local_graph_inv env st \<and> closure_store_inv env st
    \<and> ROBOT_ID env (ROBOT_LABEL env (robot_id st)) = robot_id st"
  using assms
proof (induction rule: reachable.induct)
  case (constructed rid nb w nm)
  then show ?case by (simp add: constructed_invs) (simp add: PoseGraphManager_def)
next
  case (odometry st msg st')
  from odometry.IH have rt: "ROBOT_ID env (ROBOT_LABEL env (robot_id st)) = robot_id st"
    and li: "local_graph_inv env st" by simp_all
  from odometry_callback_invs [OF rt li odometry.hyps(2)] odometry.IH
  show ?case by (simp add: closure_store_inv_def)
next
  case (loop_closure st msg)
  with inter_robot_loop_closure_callback_invs [of env msg st] show ?case
    by (simp add: inter_robot_loop_closure_callback_local)
next
  case (neighbors st ids)
  have sg: "same_graphs st (current_neighbors_callback st ids)"
    by (rule current_neighbors_callback_same)
  from same_graphs_invs [OF sg] sg neighbors.IH show ?case by (simp add: same_graphs_def)
next
  case (serve st ids)
  have sg: "same_graphs st (snd (get_pose_graph_callback st ids))"
    by (rule get_pose_graph_callback_same)
  from same_graphs_invs [OF sg] sg serve.IH show ?case by (simp add: same_graphs_def)
next
  case (receive st pg)
  have sg: "same_graphs st (pose_graph_callback st pg)"
    by (rule pose_graph_callback_same)
  from same_graphs_invs [OF sg] sg receive.IH show ?case by (simp add: same_graphs_def)
next
  case (trigger_tick st now)
  have sg: "same_graphs st (snd (optimization_callback now st))"
    by (rule optimization_callback_same)
  from same_graphs_invs [OF sg] sg trigger_tick.IH show ?case by (simp add: same_graphs_def)
next
  case (loop_tick st now outs st')
  note sg = optimization_loop_callback_same [OF loop_tick.hyps(2)]
  from same_graphs_invs [OF sg] sg loop_tick.IH show ?case by (simp add: same_graphs_def)
qed

lemma two_keyframes_eq:
  "two_keyframes = (PoseGraphManager 3 0 60 ())
     \<lparr> current_pose_estimates := [(LabeledSymbol 103 97 0, 1), (LabeledSymbol 103 97 1, 2)],
       pose_graph := [Between (BetweenFactor (LabeledSymbol 103 97 0) (LabeledSymbol 103 97 1) 2 ())],
       latest_local_pose := 2,
       latest_local_symbol := LabeledSymbol 103 97 1 \<rparr>"
  by (simp add: two_keyframes_def odometry_callback_def values_insert_def example_env_def
      default_symbol_def PoseGraphManager_def Let_def)

lemma received_prior_fields:
  "robot_id received_prior = 0" "current_neighbors_ids received_prior = [1]"
  "received_pose_graphs_connectivity received_prior = [1 \<mapsto> []]"
  "other_robots_graph_and_estimates received_prior = [1 \<mapsto> ([Prior (LabeledSymbol 103 98 0) 1 ()], [])]"
  "pose_graph received_prior = [Between (BetweenFactor (LabeledSymbol 103 97 0) (LabeledSymbol 103 97 1) 2 ())]"
  "current_pose_estimates received_prior = [(LabeledSymbol 103 97 0, 1), (LabeledSymbol 103 97 1, 2)]"
  by (simp_all add: received_prior_def two_keyframes_eq pose_graph_callback_def
      current_neighbors_callback_def PoseGraphManager_def check_received_pose_graphs_def
      end_waiting_def map_insert_def map_at_def map_touch_def)

lemma received_prior_resolver:
  "connected_robot_pose_graph received_prior =
     Inr ([0 \<mapsto> True, 1 \<mapsto> False],
          received_prior\<lparr>received_pose_graphs_connectivity := [1 \<mapsto> [], 0 \<mapsto> []]\<rparr>)"
  by (simp add: connected_robot_pose_graph_def received_prior_fields map_insert_def map_at_def
      map_touch_def)

text \<open>
  Claim C4 as stated fails: with a prior factor in the sub-graph received from the
  neighbour, the aggregator does not drop the factor and go on; the failed downcast is
  dereferenced and no joint graph is produced.
\<close>

theorem C4_received_factors_counterexample:
  "aggregate_pose_graphs example_env received_prior = Inl NullPointer"
  by (simp add: aggregate_pose_graphs_def received_prior_resolver received_prior_fields
      add_pair_def map_at_def values_insert_def Let_def)

lemma colliding_values_fields:
  "robot_id colliding_values = 0" "current_neighbors_ids colliding_values = [1, 2]"
  "received_pose_graphs_connectivity colliding_values = [0 \<mapsto> [1], 1 \<mapsto> [], 2 \<mapsto> []]"
  "other_robots_graph_and_estimates colliding_values =
     [0 \<mapsto> ([], []), 1 \<mapsto> ([], [(LabeledSymbol 103 97 0, 5)]), 2 \<mapsto> ([], [])]"
  "pose_graph colliding_values = [Between (BetweenFactor (LabeledSymbol 103 97 0) (LabeledSymbol 103 97 1) 2 ())]"
  "current_pose_estimates colliding_values = [(LabeledSymbol 103 97 0, 1), (LabeledSymbol 103 97 1, 2)]"
  by (simp_all add: colliding_values_def two_keyframes_eq pose_graph_callback_def
      current_neighbors_callback_def PoseGraphManager_def check_received_pose_graphs_def
      end_waiting_def map_insert_def map_at_def map_touch_def)

lemma colliding_values_resolver:
  "connected_robot_pose_graph colliding_values =
     Inr ([0 \<mapsto> True, 1 \<mapsto> True, 2 \<mapsto> False], colliding_values)"
  by (simp add: connected_robot_pose_graph_def colliding_values_fields map_insert_def map_at_def
      map_touch_def fun_upd_twist)

lemma colliding_values_received:
  "received_values colliding_values 1 = [(LabeledSymbol 103 97 0, 5)]"
  "map_of (current_pose_estimates colliding_values) (LabeledSymbol 103 97 0) = Some 1"
  by (simp_all add: received_values_def colliding_values_fields)

text \<open>
  Claim C8 as stated fails: the symbol of keyframe 0 of self is also a key of the values
  received from the connected neighbour 1, and the aggregator ends with the error of
  the raw insert instead of returning joint estimates.
\<close>

theorem C8_joint_estimates_counterexample:
  "aggregate_pose_graphs example_env colliding_values = Inl ValuesKeyAlreadyExists"
  by (simp add: aggregate_pose_graphs_def colliding_values_resolver colliding_values_fields
      add_pair_def map_at_def values_insert_def Let_def)

lemma serving_robot_eq:
  "serving_robot = two_keyframes
     \<lparr> inter_robot_loop_closures :=
         (\<lambda>(i, j). if i < j \<and> j < 3 then Some [] else None)
           ((0, 1) \<mapsto> [BetweenFactor (LabeledSymbol 103 97 1) (LabeledSymbol 103 98 0) 1 ()],
            (0, 2) \<mapsto> [BetweenFactor (LabeledSymbol 103 99 3) (LabeledSymbol 103 97 1) 1 ()],
            (1, 2) \<mapsto> [BetweenFactor (LabeledSymbol 103 98 4) (LabeledSymbol 103 99 7) 1 ()]) \<rparr>"
  by (simp add: serving_robot_def two_keyframes_eq inter_robot_loop_closure_callback_def
      example_env_def PoseGraphManager_def map_at_def Let_def)

lemma collected_fields:
  "robot_id collected = 0" "current_neighbors_ids collected = [1, 2]"
  "map_at [] (received_pose_graphs_connectivity collected) 0 = [1]"
  "map_at [] (received_pose_graphs_connectivity collected) 1 = [1]"
  "other_robots_graph_and_estimates collected 1 =
     Some ([Between (BetweenFactor (LabeledSymbol 103 98 0) (LabeledSymbol 103 98 1) 3 ())],
           [(LabeledSymbol 103 98 0, 1), (LabeledSymbol 103 98 1, 3)])"
  "other_robots_graph_and_estimates collected 2 =
     Some ([Between (BetweenFactor (LabeledSymbol 103 99 0) (LabeledSymbol 103 99 1) 5 ())],
           [(LabeledSymbol 103 99 0, 1)])"
  "pose_graph collected = [Between (BetweenFactor (LabeledSymbol 103 97 0) (LabeledSymbol 103 97 1) 2 ())]"
  "current_pose_estimates collected = [(LabeledSymbol 103 97 0, 1), (LabeledSymbol 103 97 1, 2)]"
  "latest_local_symbol collected = LabeledSymbol 103 97 1"
  "inter_robot_loop_closures collected = inter_robot_loop_closures serving_robot"
  by (simp_all add: collected_def serving_robot_eq two_keyframes_eq pose_graph_callback_def
      current_neighbors_callback_def PoseGraphManager_def check_received_pose_graphs_def
      end_waiting_def map_insert_def map_at_def map_touch_def get_pose_graph_callback_def
      serve_pair_def set_insert_def Let_def)

lemma collected_connectivity:
  "received_pose_graphs_connectivity collected = [0 \<mapsto> [1], 1 \<mapsto> [1], 2 \<mapsto> []]"
  by (simp add: collected_def serving_robot_eq two_keyframes_eq pose_graph_callback_def
      current_neighbors_callback_def PoseGraphManager_def check_received_pose_graphs_def
      end_waiting_def map_insert_def map_at_def map_touch_def get_pose_graph_callback_def
      serve_pair_def set_insert_def Let_def)

lemma collected_resolver:
  "connected_robot_pose_graph collected = Inr ([0 \<mapsto> True, 1 \<mapsto> True, 2 \<mapsto> False], collected)"
  by (simp add: connected_robot_pose_graph_def collected_fields collected_connectivity
      map_insert_def map_at_def map_touch_def fun_upd_twist)

lemma collected_aggregate:
  "map_sum id fst (aggregate_pose_graphs example_env collected) =
     Inr ([Between (BetweenFactor (LabeledSymbol 103 97 0) (LabeledSymbol 103 97 1) 2 ()),
           Between (BetweenFactor (LabeledSymbol 103 97 1) (LabeledSymbol 103 98 0) 1 ()),
           Between (BetweenFactor (LabeledSymbol 103 98 0) (LabeledSymbol 103 98 1) 3 ())],
          [(LabeledSymbol 103 97 0, 1), (LabeledSymbol 103 97 1, 2),
           (LabeledSymbol 103 98 0, 1), (LabeledSymbol 103 98 1, 3)])"
  by (simp add: aggregate_pose_graphs_def collected_resolver collected_fields serving_robot_eq
      add_pair_def map_at_def map_touch_def values_insert_def example_env_def Let_def)

lemma collected_invs:
  "local_graph_inv example_env collected" "closure_store_inv example_env collected"
  by (auto simp: local_graph_inv_def closure_store_inv_def collected_fields serving_robot_eq
      example_env_def map_at_def split: if_splits)

lemma resolver_self_true:
  "connected_robot_pose_graph st = Inr (m, st1) \<Longrightarrow> m (robot_id st) = Some True"
proof -
  assume "connected_robot_pose_graph st = Inr (m, st1)"
  from connected_robot_pose_graph_sound [OF this] have "true_ids m = touched st" by simp
  moreover have "robot_id st \<in> touched st" by (simp add: touched_def searched.start)
  ultimately show ?thesis by (auto simp: true_ids_def)
qed

lemma aggregate_pose_graphs_connected:
  assumes "local_graph_inv env st" and "closure_store_inv env st"
    and "aggregate_pose_graphs env st = Inr ((graph, estimates), st')"
  shows "\<exists>m st1. connected_robot_pose_graph st = Inr (m, st1)
     \<and> (\<forall>f \<in> set graph. factor_connected env m f)"
proof -
  from aggregate_pose_graphs_result [OF assms(3)] obtain m st1 where
    conn: "connected_robot_pose_graph st = Inr (m, st1)"
    and graph: "graph = pose_graph st @ own_closures st m @
         concat (map (\<lambda>n. filter (factor_connected env m) (received_graph st n))
           (current_neighbors_ids st))"
    by blast
  note self = resolver_self_true [OF conn]
  have "factor_connected env m f" if "f \<in> set graph" for f
  proof -
    from that graph consider
      (own) "f \<in> set (pose_graph st)"
      | (closure) "f \<in> set (own_closures st m)"
      | (received) "f \<in> set (concat (map (\<lambda>n. filter (factor_connected env m)
           (received_graph st n)) (current_neighbors_ids st)))"
      by auto
    then show ?thesis
    proof cases
      case own
      with assms(1) self show ?thesis
        by (auto simp: local_graph_inv_def factor_connected_def)
    next
      case closure
      then obtain p b where p: "m (fst p) = Some True" "m (snd p) = Some True"
        and b: "b \<in> set (closures_of st (fst p) (snd p))" and f: "f = Between b"
        by (auto simp: own_closures_def split: if_splits)
      from b assms(2) have "{ROBOT_ID env (label (key1 b)), ROBOT_ID env (label (key2 b))}
          = {min (fst p) (snd p), max (fst p) (snd p)}"
        unfolding closure_store_inv_def closures_of_def by blast
      then have "ROBOT_ID env (label (key1 b)) \<in> {fst p, snd p}"
        "ROBOT_ID env (label (key2 b)) \<in> {fst p, snd p}"
        by (auto simp: min_def max_def doubleton_eq_iff split: if_splits)
      with p f show ?thesis by (auto simp: factor_connected_def)
    next
      case received
      then show ?thesis by auto
    qed
  qed
  with conn show ?thesis by blast
qed


lemma odometry_callbacks_reachable:
  "reachable env st \<Longrightarrow> odometry_callbacks env st msgs = Inr st' \<Longrightarrow> reachable env st'"
proof (induction msgs arbitrary: st)
  case Nil
  then show ?case by simp
next
  case (Cons msg msgs)
  from Cons.prems(2) obtain st1 where s1: "odometry_callback env st msg = Inr st1"
    and rest: "odometry_callbacks env st1 msgs = Inr st'"
    by (cases "odometry_callback env st msg") auto
  from reachable.odometry [OF Cons.prems(1) s1] rest show ?case by (rule Cons.IH)
qed

lemma example_env_round_trip:
  "ROBOT_ID example_env (ROBOT_LABEL example_env 0) = 0"
  "ROBOT_ID example_env (ROBOT_LABEL example_env 1) = 1"
  "ROBOT_ID example_env (ROBOT_LABEL example_env 2) = 2"
  by (simp_all add: example_env_def)

lemma two_keyframes_reachable: "reachable example_env two_keyframes"
proof -
  have "odometry_callbacks example_env (PoseGraphManager 3 0 60 ())
      [\<lparr>keyframe_id = 0, odom = 1\<rparr>, \<lparr>keyframe_id = 1, odom = 2\<rparr>] = Inr two_keyframes"
    by (simp add: two_keyframes_def odometry_callback_def values_insert_def example_env_def
      default_symbol_def PoseGraphManager_def Let_def)
  with reachable.constructed [of example_env 0 3 60 "()"] example_env_round_trip(1)
  show ?thesis by (blast intro: odometry_callbacks_reachable)
qed

lemma collected_reachable: "reachable example_env collected"
  unfolding collected_def serving_robot_def foldl_Cons foldl_Nil
  by (intro reachable.receive reachable.neighbors reachable.loop_closure
      two_keyframes_reachable) (simp_all add: example_env_round_trip)

text \<open>
  Claim C3.  In every reachable state in which the aggregator returns, each factor of the
  joint graph is a between factor whose two endpoint robot ids are sent to true by the
  connectivity map that the resolver computes in that state.
\<close>

theorem C3_joint_graph_connected:
  assumes "reachable env st"
    and "aggregate_pose_graphs env st = Inr ((graph, estimates), st')"
  shows "\<exists>m st1. connected_robot_pose_graph st = Inr (m, st1)
     \<and> (\<forall>f \<in> set graph. factor_connected env m f)"
proof -
  from reachable_invs [OF assms(1)]
  have "local_graph_inv env st" "closure_store_inv env st" by simp_all
  then show ?thesis using assms(2) by (rule aggregate_pose_graphs_connected)
qed

theorem C3_joint_graph_connected_witness:
  "reachable example_env collected
   \<and> (case aggregate_pose_graphs example_env collected of
        Inl e \<Rightarrow> False
      | Inr (ge, st') \<Rightarrow>
          length (fst ge) = 3
          \<and> (\<exists>m st1. connected_robot_pose_graph collected = Inr (m, st1)
                \<and> (\<forall>f \<in> set (fst ge). factor_connected example_env m f)))"
proof (cases "aggregate_pose_graphs example_env collected")
  case (Inl e)
  with collected_aggregate show ?thesis by simp
next
  case (Inr r)
  obtain graph estimates st' where r: "r = ((graph, estimates), st')" by (cases r) auto
  from Inr r collected_aggregate have len: "length graph = 3" by auto
  from C3_joint_graph_connected [OF collected_reachable Inr [unfolded r]] Inr r len
    collected_reachable
  show ?thesis by simp
qed

text \<open>
  Claim C4, amended.  Suppose that every factor received from the current neighbours is
  a between factor, and that nothing else fails in the round: the resolver returns,
  every current neighbour has delivered its sub-graph, and no key occurs twice among
  the estimates to merge.  Then the aggregator returns, and the joint graph is the
  local graph and the stored closures of the connected pairs, followed by exactly those
  received factors whose two endpoint robot ids are connected, neighbour by neighbour
  in the order received.  Nothing is said about a received factor of another kind.
\<close>

theorem C4_received_factors:
  assumes "connected_robot_pose_graph st = Inr (m, st1)"
    and "\<forall>n \<in> set (current_neighbors_ids st). other_robots_graph_and_estimates st n \<noteq> None"
    and "\<forall>n \<in> set (current_neighbors_ids st). \<forall>f \<in> set (received_graph st n).
          \<exists>b. f = Between b"
    and "distinct (map fst (joint_values st m))"
  shows "\<exists>st'. aggregate_pose_graphs env st =
     Inr (((pose_graph st @ own_closures st m) @
           concat (map (\<lambda>n. filter (factor_connected env m) (received_graph st n))
             (current_neighbors_ids st)),
           joint_values st m), st')"
  using aggregate_pose_graphs_total [OF assms] unfolding joint_factors_def .

theorem C4_received_factors_witness:
  "connected_robot_pose_graph collected = Inr ([0 \<mapsto> True, 1 \<mapsto> True, 2 \<mapsto> False], collected)
   \<and> (\<exists>st'. aggregate_pose_graphs example_env collected =
     Inr (((pose_graph collected @ own_closures collected [0 \<mapsto> True, 1 \<mapsto> True, 2 \<mapsto> False]) @
           concat (map (\<lambda>n. filter
                 (factor_connected example_env [0 \<mapsto> True, 1 \<mapsto> True, 2 \<mapsto> False])
                 (received_graph collected n))
             (current_neighbors_ids collected)),
           joint_values collected [0 \<mapsto> True, 1 \<mapsto> True, 2 \<mapsto> False]), st'))"
proof -
  let ?m = "[0 \<mapsto> True, 1 \<mapsto> True, 2 \<mapsto> False] :: robot_id \<rightharpoonup> bool"
  have delivered: "\<forall>n \<in> set (current_neighbors_ids collected).
      other_robots_graph_and_estimates collected n \<noteq> None"
    by (simp add: collected_fields)
  have between: "\<forall>n \<in> set (current_neighbors_ids collected).
      \<forall>f \<in> set (received_graph collected n). \<exists>b. f = Between b"
    by (simp add: collected_fields received_graph_def)
  have keys: "distinct (map fst (joint_values collected ?m))"
    by (simp add: joint_values_def collected_fields received_values_def)
  from C4_received_factors [OF collected_resolver delivered between keys, of example_env]
    collected_resolver
  show ?thesis by simp
qed

text \<open>
  Claim C8, amended.  When the aggregator returns, no symbol of the estimates of self is a
  key of the values received from a connected neighbour, and the joint estimates give
  every symbol of self the value of self.
\<close>

theorem C8_joint_estimates:
  assumes "aggregate_pose_graphs env st = Inr ((graph, estimates), st')"
  shows "\<exists>m st1. connected_robot_pose_graph st = Inr (m, st1)
     \<and> (\<forall>n \<in> set (current_neighbors_ids st). m n = Some True \<longrightarrow>
           fst ` set (received_values st n) \<inter> fst ` set (current_pose_estimates st) = {})
     \<and> (\<forall>k v. map_of (current_pose_estimates st) k = Some v \<longrightarrow> map_of estimates k = Some v)"
proof -
  from aggregate_pose_graphs_result [OF assms] obtain m st1 where
    conn: "connected_robot_pose_graph st = Inr (m, st1)"
    and est: "estimates = current_pose_estimates st @
         concat (map (\<lambda>n. if m n = Some True then received_values st n else [])
           (current_neighbors_ids st))"
    and dj: "\<forall>n \<in> set (current_neighbors_ids st). m n = Some True \<longrightarrow>
           fst ` set (received_values st n) \<inter> fst ` set (current_pose_estimates st) = {}"
    by blast
  have "map_of estimates k = Some v" if "map_of (current_pose_estimates st) k = Some v" for k v
    using that unfolding est by (simp add: map_of_append)
  with conn dj show ?thesis by blast
qed

theorem C8_joint_estimates_witness:
  "case aggregate_pose_graphs example_env collected of
     Inl e \<Rightarrow> False
   | Inr (ge, st') \<Rightarrow>
       (\<exists>m st1. connected_robot_pose_graph collected = Inr (m, st1)
          \<and> (\<forall>n \<in> set (current_neighbors_ids collected). m n = Some True \<longrightarrow>
                fst ` set (received_values collected n)
                  \<inter> fst ` set (current_pose_estimates collected) = {})
          \<and> (\<forall>k v. map_of (current_pose_estimates collected) k = Some v \<longrightarrow>
                map_of (snd ge) k = Some v))"
proof (cases "aggregate_pose_graphs example_env collected")
  case (Inl e)
  with collected_aggregate show ?thesis by simp
next
  case (Inr r)
  obtain graph estimates st' where r: "r = ((graph, estimates), st')" by (cases r) auto
  from C8_joint_estimates [OF Inr [unfolded r]] Inr r show ?thesis by simp
qed


section \<open>A round that waits\<close>

lemma check_received_fold:
  "foldl (\<lambda>(received_all, flags) rid.
            (received_all \<and> map_at False flags rid, map_touch False flags rid))
     (a, flags) ids = (r, flags') \<Longrightarrow>
   (r \<longleftrightarrow> a \<and> (\<forall>n \<in> set ids. flags n = Some True))"
proof (induction ids arbitrary: a flags)
  case Nil
  then show ?case by simp
next
  case (Cons i ids)
  have t: "\<And>n. map_touch False flags i n = Some True \<longleftrightarrow> flags n = Some True"
    by (auto simp: map_touch_def split: option.splits)
  have m: "map_at False flags i \<longleftrightarrow> flags i = Some True"
    by (simp add: map_at_def split: option.splits)
  from Cons.prems have "foldl (\<lambda>(received_all, flags) rid.
            (received_all \<and> map_at False flags rid, map_touch False flags rid))
     (a \<and> map_at False flags i, map_touch False flags i) ids = (r, flags')" by simp
  from Cons.IH [OF this] show ?case by (auto simp: t m)
qed

lemma check_received_pose_graphs_iff:
  "fst (check_received_pose_graphs st) \<longleftrightarrow>
     (\<forall>n \<in> set (current_neighbors_ids st). received_pose_graphs st n = Some True)"
proof (cases "foldl (\<lambda>(received_all, flags) rid.
            (received_all \<and> map_at False flags rid, map_touch False flags rid))
     (True, received_pose_graphs st) (current_neighbors_ids st)")
  case (Pair r flags')
  then have "fst (check_received_pose_graphs st) = r"
    unfolding check_received_pose_graphs_def Let_def by simp
  with check_received_fold [OF Pair] show ?thesis by blast
qed

lemma check_received_pose_graphs_wait:
  "optimizer_state (snd (check_received_pose_graphs st)) = optimizer_state st"
  "is_waiting (snd (check_received_pose_graphs st)) = is_waiting st"
  "start_waiting_time (snd (check_received_pose_graphs st)) = start_waiting_time st"
  "max_waiting_time_sec (snd (check_received_pose_graphs st)) = max_waiting_time_sec st"
  "current_pose_estimates (snd (check_received_pose_graphs st)) = current_pose_estimates st"
  by (simp_all add: check_received_pose_graphs_def split: prod.splits)

lemma pose_graph_callback_cases:
  "(completes st pg \<longrightarrow>
      optimizer_state (pose_graph_callback st pg) = OPTIMIZATION
      \<and> \<not> is_waiting (pose_graph_callback st pg))
   \<and> (\<not> completes st pg \<longrightarrow>
      optimizer_state (pose_graph_callback st pg) = optimizer_state st
      \<and> is_waiting (pose_graph_callback st pg) = is_waiting st)
   \<and> start_waiting_time (pose_graph_callback st pg) = start_waiting_time st
   \<and> max_waiting_time_sec (pose_graph_callback st pg) = max_waiting_time_sec st
   \<and> current_pose_estimates (pose_graph_callback st pg) = current_pose_estimates st"
proof -
  let ?st1 = "st\<lparr> other_robots_graph_and_estimates :=
                      map_insert (other_robots_graph_and_estimates st) (msg_robot_id pg)
                        (msg_edges pg, msg_values pg),
                    received_pose_graphs :=
                      (received_pose_graphs st)(msg_robot_id pg \<mapsto> True),
                    received_pose_graphs_connectivity :=
                      map_insert (received_pose_graphs_connectivity st) (msg_robot_id pg)
                        (msg_connected_robots pg) \<rparr>"
  obtain r st2 where c: "check_received_pose_graphs ?st1 = (r, st2)" by (metis surj_pair)
  have r: "r \<longleftrightarrow> completes st pg"
    using check_received_pose_graphs_iff [of ?st1] c by (auto simp: completes_def)
  from check_received_pose_graphs_wait [of ?st1] c
  have w: "optimizer_state st2 = optimizer_state st" "is_waiting st2 = is_waiting st"
    "start_waiting_time st2 = start_waiting_time st"
    "max_waiting_time_sec st2 = max_waiting_time_sec st"
    "current_pose_estimates st2 = current_pose_estimates st" by simp_all
  have "pose_graph_callback st pg =
      (if r then (end_waiting st2)\<lparr>optimizer_state := OPTIMIZATION\<rparr> else st2)"
    using c by (simp add: pose_graph_callback_def Let_def)
  with r w show ?thesis by (simp add: end_waiting_def)
qed

lemma loop_tick_waiting:
  assumes "optimizer_state st = WAITING"
    and "now - start_waiting_time st \<le> max_waiting_time_sec st \<or> current_pose_estimates st = []"
  shows "optimization_loop_callback env now st = Inr ([OptimizerStateMsg WAITING], st)"
proof (cases "current_pose_estimates st = []")
  case True
  with assms(1) show ?thesis by (simp add: optimization_loop_callback_def)
next
  case False
  with assms(2) have "now - start_waiting_time st \<le> max_waiting_time_sec st" by simp
  with assms(1) False show ?thesis
    by (simp add: optimization_loop_callback_def check_waiting_timeout_def Let_def)
qed

lemma inter_robot_loop_closure_callback_wait:
  "optimizer_state (inter_robot_loop_closure_callback env st msg) = optimizer_state st"
  "start_waiting_time (inter_robot_loop_closure_callback env st msg) = start_waiting_time st"
  "max_waiting_time_sec (inter_robot_loop_closure_callback env st msg) = max_waiting_time_sec st"
  "current_pose_estimates (inter_robot_loop_closure_callback env st msg) = current_pose_estimates st"
  by (simp_all add: inter_robot_loop_closure_callback_def Let_def)

lemma get_pose_graph_callback_wait:
  "optimizer_state (snd (get_pose_graph_callback st ids)) = optimizer_state st"
  "start_waiting_time (snd (get_pose_graph_callback st ids)) = start_waiting_time st"
  "max_waiting_time_sec (snd (get_pose_graph_callback st ids)) = max_waiting_time_sec st"
  "current_pose_estimates (snd (get_pose_graph_callback st ids)) = current_pose_estimates st"
  by (simp_all add: get_pose_graph_callback_def split: prod.splits)

lemma odometry_callback_wait:
  assumes "odometry_callback env st msg = Inr st'"
  shows "optimizer_state st' = optimizer_state st"
    "start_waiting_time st' = start_waiting_time st"
    "max_waiting_time_sec st' = max_waiting_time_sec st"
    "current_pose_estimates st' \<noteq> []"
  using assms
  by (auto simp: odometry_callback_def values_insert_def Let_def split: option.splits)

lemma handle_event_keeps_waiting:
  assumes "optimizer_state st = WAITING"
    and "\<not> completion_event st ev" and "\<not> timeout_tick st ev"
    and "handle_event env st ev = Inr (outs, st')"
  shows "optimizer_state st' = WAITING
    \<and> start_waiting_time st' = start_waiting_time st
    \<and> max_waiting_time_sec st' = max_waiting_time_sec st
    \<and> (current_pose_estimates st \<noteq> [] \<longrightarrow> current_pose_estimates st' \<noteq> [])
    \<and> ((\<exists>msg. ev = KeyframeEvent msg) \<longrightarrow> current_pose_estimates st' \<noteq> [])
    \<and> (\<forall>b g v. OptimizationResult b g v \<notin> set outs)"
proof (cases ev)
  case (TriggerTick now)
  with assms show ?thesis by (simp add: optimization_callback_def)
next
  case (LoopTick now)
  with assms(3) have "now - start_waiting_time st \<le> max_waiting_time_sec st
      \<or> current_pose_estimates st = []" by auto
  from loop_tick_waiting [OF assms(1) this, of env] assms(1,4) LoopTick show ?thesis
    by auto
next
  case (KeyframeEvent msg)
  with assms(4) have o: "odometry_callback env st msg = Inr st'" and outs: "outs = []"
    by (cases "odometry_callback env st msg", auto)+
  from odometry_callback_wait [OF o] assms(1) outs show ?thesis by simp
next
  case (LoopClosureEvent msg)
  with assms(4) have "st' = inter_robot_loop_closure_callback env st msg" "outs = []"
    by simp_all
  with assms(1) show ?thesis
    by (simp add: inter_robot_loop_closure_callback_wait LoopClosureEvent)
next
  case (NeighborsEvent ids)
  with assms(2) show ?thesis by simp
next
  case (RequestEvent ids)
  with assms(4) have "st' = snd (get_pose_graph_callback st ids)"
    "outs = [PublishedPoseGraph (fst (get_pose_graph_callback st ids))]"
    by (auto split: prod.splits)
  with assms(1) show ?thesis by (simp add: get_pose_graph_callback_wait RequestEvent)
next
  case (SubGraphEvent pg)
  with assms(2) have "\<not> completes st pg" by simp
  with pose_graph_callback_cases [of st pg] assms(1,4) SubGraphEvent show ?thesis by auto
qed

lemma run_events_keeps_waiting:
  assumes "optimizer_state st = WAITING" and "wait_continues env st evs"
  shows "\<exists>outs st1. run_events env st evs = Inr (outs, st1)
    \<and> optimizer_state st1 = WAITING
    \<and> start_waiting_time st1 = start_waiting_time st
    \<and> max_waiting_time_sec st1 = max_waiting_time_sec st
    \<and> (current_pose_estimates st \<noteq> [] \<or> (\<exists>msg. KeyframeEvent msg \<in> set evs)
          \<longrightarrow> current_pose_estimates st1 \<noteq> [])
    \<and> (\<forall>b g v. OptimizationResult b g v \<notin> set outs)"
  using assms
proof (induction evs arbitrary: st)
  case Nil
  then show ?case by simp
next
  case (Cons ev evs)
  from Cons.prems(2) obtain outs0 s0 where h: "handle_event env st ev = Inr (outs0, s0)"
    and nc: "\<not> completion_event st ev" and nt: "\<not> timeout_tick st ev"
    and rest: "wait_continues env s0 evs"
    by (cases "handle_event env st ev") auto
  note k = handle_event_keeps_waiting [OF Cons.prems(1) nc nt h]
  from k have w0: "optimizer_state s0 = WAITING" by simp
  from Cons.IH [OF w0 rest] obtain outs1 s1 where
    r: "run_events env s0 evs = Inr (outs1, s1)"
    and f: "optimizer_state s1 = WAITING"
      "start_waiting_time s1 = start_waiting_time s0"
      "max_waiting_time_sec s1 = max_waiting_time_sec s0"
      "current_pose_estimates s0 \<noteq> [] \<or> (\<exists>msg. KeyframeEvent msg \<in> set evs)
          \<longrightarrow> current_pose_estimates s1 \<noteq> []"
      "\<forall>b g v. OptimizationResult b g v \<notin> set outs1"
    by blast
  have run: "run_events env st (ev # evs) = Inr (outs0 @ outs1, s1)" using h r by simp
  have est: "current_pose_estimates st \<noteq> [] \<or> (\<exists>msg. KeyframeEvent msg \<in> set (ev # evs))
          \<longrightarrow> current_pose_estimates s1 \<noteq> []"
    using k f(4) by auto
  have res: "\<forall>b g v. OptimizationResult b g v \<notin> set (outs0 @ outs1)"
    using k f(5) by simp
  from run f(1,2,3) k est res show ?case by simp
qed

lemma run_events_append:
  "run_events env st (a @ b) =
     (case run_events env st a of
        Inl e \<Rightarrow> Inl e
      | Inr (outs, st') \<Rightarrow>
          (case run_events env st' b of
             Inl e \<Rightarrow> Inl e
           | Inr (outs', st'') \<Rightarrow> Inr (outs @ outs', st'')))"
proof (induction a arbitrary: st)
  case Nil
  then show ?case by (simp split: sum.splits)
next
  case (Cons ev a)
  show ?case
    by (cases "handle_event env st ev") (auto simp: Cons.IH split: sum.splits prod.splits)
qed

lemma loop_tick_timeout:
  assumes "optimizer_state st = WAITING" and "current_pose_estimates st \<noteq> []"
    and "now - start_waiting_time st > max_waiting_time_sec st"
  shows "optimization_loop_callback env now st =
     Inr ([OptimizerStateMsg IDLE], (end_waiting st)\<lparr>optimizer_state := IDLE\<rparr>)"
  using assms by (simp add: optimization_loop_callback_def check_waiting_timeout_def Let_def)

lemma waiting_for_graphs_eq:
  "waiting_for_graphs = two_keyframes
     \<lparr> current_neighbors_ids := [1, 2],
       optimizer_state := WAITING,
       is_waiting := True,
       start_waiting_time := 1000000000 \<rparr>"
  by (simp add: waiting_for_graphs_def two_keyframes_eq optimization_callback_def
      reinitialize_received_pose_graphs_def start_waiting_def current_neighbors_callback_def
      end_waiting_def optimization_loop_callback_def PoseGraphManager_def cong: if_cong)

lemma waiting_for_graphs_fields:
  "optimizer_state waiting_for_graphs = WAITING"
  "current_pose_estimates waiting_for_graphs \<noteq> []"
  "start_waiting_time waiting_for_graphs = 1000000000"
  "max_waiting_time_sec waiting_for_graphs = 60000000000"
  by (simp_all add: waiting_for_graphs_eq two_keyframes_eq PoseGraphManager_def)

lemma waiting_for_graphs_events:
  "wait_continues example_env waiting_for_graphs
     [LoopTick 2000000000,
      SubGraphEvent \<lparr>msg_robot_id = 1, msg_values = [], msg_edges = [],
        msg_connected_robots = []\<rparr>,
      KeyframeEvent \<lparr>keyframe_id = 2, odom = 4\<rparr>,
      LoopClosureEvent \<lparr> success = True, robot0_id = 0, robot0_image_id = 1,
          robot1_id = 1, robot1_image_id = 0, transform = 1 \<rparr>,
      RequestEvent [0, 1],
      TriggerTick 61500000000]"
  by (simp add: waiting_for_graphs_eq two_keyframes_eq PoseGraphManager_def completes_def
      optimization_loop_callback_def check_waiting_timeout_def pose_graph_callback_def
      check_received_pose_graphs_def map_insert_def map_at_def map_touch_def
      odometry_callback_def values_insert_def example_env_def default_symbol_def
      inter_robot_loop_closure_callback_def get_pose_graph_callback_def serve_pair_def
      set_insert_def optimization_callback_def Let_def)

text \<open>
  Claim C7, amended.  Take a round that is in \<open>WAITING\<close> and any sequence of events that
  holds no completion event: timer ticks, keyframes, loop closures, sub-graph requests
  and sub-graphs that leave some current neighbour without one, each handled without an
  exception, and no loop tick that comes after the limit while \<open>current_pose_estimates\<close>
  is not empty.  If there are estimates (at the start of the sequence, or because a
  keyframe is part of it), then the next loop tick later than \<open>max_waiting_time\<close> after
  \<open>start_waiting_time\<close> ends the wait and sets the state to \<open>IDLE\<close>, and nothing in the
  round publishes an optimization result.
\<close>

theorem C7_waiting_timeout:
  assumes "optimizer_state st = WAITING"
    and "wait_continues env st evs"
    and "current_pose_estimates st \<noteq> [] \<or> (\<exists>msg. KeyframeEvent msg \<in> set evs)"
    and "now - start_waiting_time st > max_waiting_time_sec st"
  shows "\<exists>outs st'. run_events env st (evs @ [LoopTick now]) = Inr (outs, st')
     \<and> optimizer_state st' = IDLE \<and> \<not> is_waiting st'
     \<and> (\<forall>b g v. OptimizationResult b g v \<notin> set outs)"
proof -
  from run_events_keeps_waiting [OF assms(1,2)] assms(3) obtain outs1 s1 where
    r: "run_events env st evs = Inr (outs1, s1)"
    and w: "optimizer_state s1 = WAITING"
    and t: "start_waiting_time s1 = start_waiting_time st"
      "max_waiting_time_sec s1 = max_waiting_time_sec st"
    and e: "current_pose_estimates s1 \<noteq> []"
    and n: "\<forall>b g v. OptimizationResult b g v \<notin> set outs1"
    by blast
  from assms(4) t have late: "now - start_waiting_time s1 > max_waiting_time_sec s1" by simp
  let ?st' = "(end_waiting s1)\<lparr>optimizer_state := IDLE\<rparr>"
  have "run_events env st (evs @ [LoopTick now]) = Inr (outs1 @ [OptimizerStateMsg IDLE], ?st')"
    using r loop_tick_timeout [OF w e late, of env] by (simp add: run_events_append)
  moreover have "optimizer_state ?st' = IDLE" "\<not> is_waiting ?st'"
    by (simp_all add: end_waiting_def)
  moreover have "\<forall>b g v. OptimizationResult b g v \<notin> set (outs1 @ [OptimizerStateMsg IDLE])"
    using n by simp
  ultimately show ?thesis by blast
qed

theorem C7_waiting_timeout_witness:
  "optimizer_state waiting_for_graphs = WAITING
   \<and> wait_continues example_env waiting_for_graphs
        [LoopTick 2000000000,
         SubGraphEvent \<lparr>msg_robot_id = 1, msg_values = [], msg_edges = [],
           msg_connected_robots = []\<rparr>,
         KeyframeEvent \<lparr>keyframe_id = 2, odom = 4\<rparr>,
         LoopClosureEvent \<lparr> success = True, robot0_id = 0, robot0_image_id = 1,
             robot1_id = 1, robot1_image_id = 0, transform = 1 \<rparr>,
         RequestEvent [0, 1],
         TriggerTick 61500000000]
   \<and> current_pose_estimates waiting_for_graphs \<noteq> []
   \<and> 62000000000 - start_waiting_time waiting_for_graphs
        > max_waiting_time_sec waiting_for_graphs
   \<and> (\<exists>outs st'. run_events example_env waiting_for_graphs
          ([LoopTick 2000000000,
            SubGraphEvent \<lparr>msg_robot_id = 1, msg_values = [], msg_edges = [],
              msg_connected_robots = []\<rparr>,
            KeyframeEvent \<lparr>keyframe_id = 2, odom = 4\<rparr>,
            LoopClosureEvent \<lparr> success = True, robot0_id = 0, robot0_image_id = 1,
                robot1_id = 1, robot1_image_id = 0, transform = 1 \<rparr>,
            RequestEvent [0, 1],
            TriggerTick 61500000000] @ [LoopTick 62000000000])
          = Inr (outs, st')
        \<and> optimizer_state st' = IDLE \<and> \<not> is_waiting st'
        \<and> (\<forall>b g v. OptimizationResult b g v \<notin> set outs))"
proof -
  have late: "62000000000 - start_waiting_time waiting_for_graphs
        > max_waiting_time_sec waiting_for_graphs"
    by (simp add: waiting_for_graphs_fields)
  have est: "current_pose_estimates waiting_for_graphs \<noteq> []
      \<or> (\<exists>msg. KeyframeEvent msg \<in> set
        [LoopTick 2000000000,
         SubGraphEvent \<lparr>msg_robot_id = 1, msg_values = [], msg_edges = [],
           msg_connected_robots = []\<rparr>,
         KeyframeEvent \<lparr>keyframe_id = 2, odom = 4\<rparr>,
         LoopClosureEvent \<lparr> success = True, robot0_id = 0, robot0_image_id = 1,
             robot1_id = 1, robot1_image_id = 0, transform = 1 \<rparr>,
         RequestEvent [0, 1],
         TriggerTick 61500000000])"
    using waiting_for_graphs_fields(2) by blast
  from C7_waiting_timeout [OF waiting_for_graphs_fields(1) waiting_for_graphs_events est late]
    waiting_for_graphs_fields(1,2) waiting_for_graphs_events late
  show ?thesis by blast
qed

end
